theory Spec2Isabelle
  imports Complex_Main "HOL-Library.Word"
begin

unbundle bit_operations_syntax

section \<open>Machine types\<close>

text \<open>
  The firmware (\<^verbatim>\<open>CyberTruck/Core/Src/main.c\<close>) runs on an STM32F103 (Cortex-M3).
  Its fixed-width integers are words; \<^verbatim>\<open>int32_t\<close> and \<^verbatim>\<open>int8_t\<close> are words read with
  \<open>sint\<close> or widened with \<open>scast\<close>. A \<^verbatim>\<open>float\<close> is its 32-bit IEEE-754 binary32
  pattern.
\<close>

type_synonym u8 = "8 word"
type_synonym u16 = "16 word"
type_synonym u32 = "32 word"
type_synonym i32 = "32 word"
type_synonym f32 = "32 word"

text \<open>
  Two ways the main-line code can fail to return a result: an access outside an
  array (undefined behaviour in C), and a wait that never ends.
\<close>

datatype fault = OutOfBounds | Hang

section \<open>Single-precision arithmetic\<close>

text \<open>
  The target has no floating-point unit; \<^verbatim>\<open>float\<close> operations are IEEE-754 binary32
  operations in round-to-nearest, ties-to-even, each rounded to single precision
  (no extended intermediate precision, no fused multiply-add). A finite pattern with
  sign \<open>s\<close>, biased exponent \<open>e\<close> and fraction \<open>f\<close> stands for
  \<open>(-1)^s * m * 2^k\<close> with \<open>m = f\<close>, \<open>k = -149\<close> when \<open>e = 0\<close> and
  \<open>m = 2^23 + f\<close>, \<open>k = e - 150\<close> otherwise.
\<close>

definition f32_sign :: "f32 \<Rightarrow> bool" where
  "f32_sign w = (2147483648 \<le> uint w)"

definition f32_expo :: "f32 \<Rightarrow> int" where
  "f32_expo w = uint w div 8388608 mod 256"

definition f32_frac :: "f32 \<Rightarrow> int" where
  "f32_frac w = uint w mod 8388608"

definition f32_is_nan :: "f32 \<Rightarrow> bool" where
  "f32_is_nan w = (f32_expo w = 255 \<and> f32_frac w \<noteq> 0)"

definition f32_is_inf :: "f32 \<Rightarrow> bool" where
  "f32_is_inf w = (f32_expo w = 255 \<and> f32_frac w = 0)"

definition f32_mant :: "f32 \<Rightarrow> int" where
  "f32_mant w = (if f32_expo w = 0 then f32_frac w else 8388608 + f32_frac w)"

definition f32_ulp :: "f32 \<Rightarrow> int" where
  "f32_ulp w = (if f32_expo w = 0 then - 149 else f32_expo w - 150)"

definition pow2 :: "int \<Rightarrow> int" where
  "pow2 k = 2 ^ nat k"

text \<open>The value of a finite pattern, as a rational number.\<close>

definition f32_valof :: "f32 \<Rightarrow> rat" where
  "f32_valof w =
     (if f32_sign w then - 1 else 1) * of_int (f32_mant w) *
     (if 0 \<le> f32_ulp w then of_int (pow2 (f32_ulp w)) else 1 / of_int (pow2 (- f32_ulp w)))"

function bit_length :: "int \<Rightarrow> int" where
  "bit_length n = (if n \<le> 0 then 0 else 1 + bit_length (n div 2))"
  by pat_completeness auto
termination
  by (relation "measure nat") auto

declare bit_length.simps [simp del]

text \<open>
  \<open>f32_round_mag p q\<close> is the pattern (sign bit clear) of the binary32 number nearest
  to the non-negative rational \<open>p / q\<close> (\<open>q > 0\<close>), ties to even: \<open>e\<close> is the binary
  exponent of \<open>p / q\<close>, \<open>E\<close> the exponent of the result's binade (subnormals share
  \<open>-126\<close>), \<open>n\<close> the quotient in units of \<open>2^(E - 23)\<close>, rounded. Adding the rounded
  significand to the exponent field lets a carry out of the significand move to the
  next binade; a result beyond the largest finite number is infinity.
\<close>

definition f32_inf_bits :: int where
  "f32_inf_bits = 2139095040"

definition f32_round_mag :: "int \<Rightarrow> int \<Rightarrow> int" where
  "f32_round_mag p q =
     (if p = 0 then 0 else
      let d = bit_length p - bit_length q;
          e = (if (if 0 \<le> d then q * pow2 d \<le> p else q \<le> p * pow2 (- d)) then d else d - 1);
          E = max e (- 126);
          s = 23 - E;
          num = (if 0 \<le> s then p * pow2 s else p);
          den = (if 0 \<le> s then q else q * pow2 (- s));
          n = num div den;
          r = num mod den;
          n' = (if den < 2 * r \<or> (2 * r = den \<and> odd n) then n + 1 else n);
          b = (E + 126) * 8388608 + n'
      in if f32_inf_bits \<le> b then f32_inf_bits else b)"

definition f32_make :: "bool \<Rightarrow> int \<Rightarrow> f32" where
  "f32_make s b = word_of_int (if s then 2147483648 + b else b)"

definition f32_nan :: f32 where
  "f32_nan = 0x7FC00000"

text \<open>Rounding \<open>(-1)^s * m * 2^k\<close> for a non-negative integer \<open>m\<close>.\<close>

definition f32_round_scaled :: "bool \<Rightarrow> int \<Rightarrow> int \<Rightarrow> f32" where
  "f32_round_scaled s m k =
     f32_make s (if 0 \<le> k then f32_round_mag (m * pow2 k) 1 else f32_round_mag m (pow2 (- k)))"

definition f32_mul :: "f32 \<Rightarrow> f32 \<Rightarrow> f32" where
  "f32_mul a b =
     (if f32_is_nan a \<or> f32_is_nan b then f32_nan
      else let s = (f32_sign a \<noteq> f32_sign b) in
        if f32_is_inf a \<or> f32_is_inf b then
          (if f32_mant a = 0 \<or> f32_mant b = 0 then f32_nan else f32_make s f32_inf_bits)
        else f32_round_scaled s (f32_mant a * f32_mant b) (f32_ulp a + f32_ulp b))"

definition f32_add :: "f32 \<Rightarrow> f32 \<Rightarrow> f32" where
  "f32_add a b =
     (if f32_is_nan a \<or> f32_is_nan b then f32_nan
      else if f32_is_inf a then (if f32_is_inf b \<and> f32_sign a \<noteq> f32_sign b then f32_nan else a)
      else if f32_is_inf b then b
      else
        let k = min (f32_ulp a) (f32_ulp b);
            x = (if f32_sign a then - f32_mant a else f32_mant a) * pow2 (f32_ulp a - k)
              + (if f32_sign b then - f32_mant b else f32_mant b) * pow2 (f32_ulp b - k)
        in if x = 0 then f32_make (f32_sign a \<and> f32_sign b) 0
           else f32_round_scaled (x < 0) \<bar>x\<bar> k)"

definition f32_neg :: "f32 \<Rightarrow> f32" where
  "f32_neg a = a XOR 0x80000000"

definition f32_sub :: "f32 \<Rightarrow> f32 \<Rightarrow> f32" where
  "f32_sub a b = f32_add a (f32_neg b)"

definition f32_div :: "f32 \<Rightarrow> f32 \<Rightarrow> f32" where
  "f32_div a b =
     (if f32_is_nan a \<or> f32_is_nan b then f32_nan
      else let s = (f32_sign a \<noteq> f32_sign b) in
        if f32_is_inf a then (if f32_is_inf b then f32_nan else f32_make s f32_inf_bits)
        else if f32_is_inf b then f32_make s 0
        else if f32_mant b = 0 then (if f32_mant a = 0 then f32_nan else f32_make s f32_inf_bits)
        else
          let k = f32_ulp a - f32_ulp b in
          f32_make s (if 0 \<le> k then f32_round_mag (f32_mant a * pow2 k) (f32_mant b)
                      else f32_round_mag (f32_mant a) (f32_mant b * pow2 (- k))))"

text \<open>Conversion of a C \<^verbatim>\<open>int\<close> to \<^verbatim>\<open>float\<close>, and a decimal literal \<open>p / q\<close>.\<close>

definition f32_of_int :: "int \<Rightarrow> f32" where
  "f32_of_int i = f32_make (i < 0) (f32_round_mag \<bar>i\<bar> 1)"

definition f32_lit :: "int \<Rightarrow> int \<Rightarrow> f32" where
  "f32_lit p q = f32_make False (f32_round_mag p q)"

section \<open>Quadrature decoder\<close>

text \<open>
  The globals of \<^verbatim>\<open>main.c\<close> that outlive a call: the four tick counters and previous
  phases, the gyro bias and the millisecond counter. All start at zero.
\<close>

record globals =
  encFL :: i32
  encFR :: i32
  encBL :: i32
  encBR :: i32
  prevFL :: u8
  prevFR :: u8
  prevBL :: u8
  prevBR :: u8
  gyro_bias_z :: f32
  systick_millis :: u32

definition globals0 :: globals where
  "globals0 = \<lparr> encFL = 0, encFR = 0, encBL = 0, encBR = 0,
                 prevFL = 0, prevFR = 0, prevBL = 0, prevBR = 0,
                 gyro_bias_z = 0, systick_millis = 0 \<rparr>"

definition ENC_FLA_PIN :: nat where "ENC_FLA_PIN = 8"
definition ENC_FLB_PIN :: nat where "ENC_FLB_PIN = 9"
definition ENC_BLA_PIN :: nat where "ENC_BLA_PIN = 10"
definition ENC_BLB_PIN :: nat where "ENC_BLB_PIN = 11"
definition ENC_FRA_PIN :: nat where "ENC_FRA_PIN = 15"
definition ENC_FRB_PIN :: nat where "ENC_FRB_PIN = 3"
definition ENC_BRA_PIN :: nat where "ENC_BRA_PIN = 4"
definition ENC_BRB_PIN :: nat where "ENC_BRB_PIN = 5"

definition BIT :: "nat \<Rightarrow> u32" where
  "BIT n = push_bit n 1"

text \<open>
  \<^verbatim>\<open>READ_PIN(port, pin)\<close> tests one bit of the port's input data register. The
  register is volatile: every use of the macro is a read of its own, so a function
  that reads two pins takes the two values the register had, \<open>ia\<close> at the read for
  channel A and \<open>ib\<close> at the read for channel B.
\<close>

definition READ_PIN :: "u32 \<Rightarrow> nat \<Rightarrow> bool" where
  "READ_PIN idr pin = (idr AND BIT pin \<noteq> 0)"

definition rdFL :: "u32 \<Rightarrow> u32 \<Rightarrow> u8" where
  "rdFL ia ib = push_bit 1 (if READ_PIN ia ENC_FLA_PIN then 1 else 0)
                OR (if READ_PIN ib ENC_FLB_PIN then 1 else 0)"

definition rdFR :: "u32 \<Rightarrow> u32 \<Rightarrow> u8" where
  "rdFR ia ib = push_bit 1 (if READ_PIN ia ENC_FRA_PIN then 1 else 0)
                OR (if READ_PIN ib ENC_FRB_PIN then 1 else 0)"

definition rdBL :: "u32 \<Rightarrow> u32 \<Rightarrow> u8" where
  "rdBL ia ib = push_bit 1 (if READ_PIN ia ENC_BLA_PIN then 1 else 0)
                OR (if READ_PIN ib ENC_BLB_PIN then 1 else 0)"

definition rdBR :: "u32 \<Rightarrow> u32 \<Rightarrow> u8" where
  "rdBR ia ib = push_bit 1 (if READ_PIN ia ENC_BRA_PIN then 1 else 0)
                OR (if READ_PIN ib ENC_BRB_PIN then 1 else 0)"

text \<open>The table of \<^verbatim>\<open>int8_t\<close> deltas; \<open>- 1\<close> is the byte \<open>0xFF\<close>.\<close>

definition qLUT :: "8 word list" where
  "qLUT = [ 0, - 1,   1,   0,
            1,   0,   0, - 1,
          - 1,   0,   0,   1,
            0,   1, - 1,   0]"

text \<open>
  The index \<^verbatim>\<open>(prev << 2) | ns\<close> is computed on \<^verbatim>\<open>int\<close>. A previous phase above 3
  would index past the sixteen entries; the model makes that a fault. The addition
  to the counter wraps at 32 bits.
\<close>

definition qidx :: "u8 \<Rightarrow> u8 \<Rightarrow> nat" where
  "qidx prev ns = push_bit 2 (unat prev) OR unat ns"

definition isrFL :: "u32 \<Rightarrow> u32 \<Rightarrow> globals \<Rightarrow> fault + globals" where
  "isrFL ia ib g =
     (let ns = rdFL ia ib in
      if qidx (prevFL g) ns < length qLUT
      then Inr (g\<lparr>encFL := encFL g + scast (qLUT ! qidx (prevFL g) ns), prevFL := ns\<rparr>)
      else Inl OutOfBounds)"

definition isrFR :: "u32 \<Rightarrow> u32 \<Rightarrow> globals \<Rightarrow> fault + globals" where
  "isrFR ia ib g =
     (let ns = rdFR ia ib in
      if qidx (prevFR g) ns < length qLUT
      then Inr (g\<lparr>encFR := encFR g + scast (qLUT ! qidx (prevFR g) ns), prevFR := ns\<rparr>)
      else Inl OutOfBounds)"

definition isrBL :: "u32 \<Rightarrow> u32 \<Rightarrow> globals \<Rightarrow> fault + globals" where
  "isrBL ia ib g =
     (let ns = rdBL ia ib in
      if qidx (prevBL g) ns < length qLUT
      then Inr (g\<lparr>encBL := encBL g + scast (qLUT ! qidx (prevBL g) ns), prevBL := ns\<rparr>)
      else Inl OutOfBounds)"

definition isrBR :: "u32 \<Rightarrow> u32 \<Rightarrow> globals \<Rightarrow> fault + globals" where
  "isrBR ia ib g =
     (let ns = rdBR ia ib in
      if qidx (prevBR g) ns < length qLUT
      then Inr (g\<lparr>encBR := encBR g + scast (qLUT ! qidx (prevBR g) ns), prevBR := ns\<rparr>)
      else Inl OutOfBounds)"

text \<open>
  The four wheels, to speak of any one of them: its pin reader, its handler, its
  counter and its previous phase.
\<close>

datatype wheel = FL | FR | BL | BR

fun rd :: "wheel \<Rightarrow> u32 \<Rightarrow> u32 \<Rightarrow> u8" where
  "rd FL = rdFL"
| "rd FR = rdFR"
| "rd BL = rdBL"
| "rd BR = rdBR"

fun isr :: "wheel \<Rightarrow> u32 \<Rightarrow> u32 \<Rightarrow> globals \<Rightarrow> fault + globals" where
  "isr FL = isrFL"
| "isr FR = isrFR"
| "isr BL = isrBL"
| "isr BR = isrBR"

fun enc :: "wheel \<Rightarrow> globals \<Rightarrow> i32" where
  "enc FL = encFL"
| "enc FR = encFR"
| "enc BL = encBL"
| "enc BR = encBR"

fun prev :: "wheel \<Rightarrow> globals \<Rightarrow> u8" where
  "prev FL = prevFL"
| "prev FR = prevFR"
| "prev BL = prevBL"
| "prev BR = prevBR"

text \<open>
  Running one wheel's handler over a sequence of edges: each element is the pair of
  register values the handler's two pin reads see.
\<close>

fun run_isr :: "wheel \<Rightarrow> (u32 \<times> u32) list \<Rightarrow> globals \<Rightarrow> fault + globals" where
  "run_isr w [] g = Inr g"
| "run_isr w (x # xs) g =
     (case isr w (fst x) (snd x) g of Inl f \<Rightarrow> Inl f | Inr g' \<Rightarrow> run_isr w xs g')"

text \<open>
  The quadrature cycle in the terms of the specification. A phase is the two-bit
  value \<open>2 * A + B\<close>. One valid step changes exactly one channel; the direction that
  the table counts up runs 0, 2, 3, 1, 0; the other direction runs it backwards. A
  diagonal transition changes both channels.
\<close>

definition fwd_next :: "u8 \<Rightarrow> u8" where
  "fwd_next p = (if p = 0 then 2 else if p = 2 then 3 else if p = 3 then 1 else 0)"

definition rev_next :: "u8 \<Rightarrow> u8" where
  "rev_next p = (if p = 0 then 1 else if p = 1 then 3 else if p = 3 then 2 else 0)"

definition one_step :: "u8 \<Rightarrow> u8 \<Rightarrow> bool" where
  "one_step p n = (p XOR n = 1 \<or> p XOR n = 2)"

definition diagonal :: "u8 \<Rightarrow> u8 \<Rightarrow> bool" where
  "diagonal p n = (p XOR n = 3)"

fun fwd_seq :: "u8 \<Rightarrow> nat \<Rightarrow> u8 list" where
  "fwd_seq p 0 = []"
| "fwd_seq p (Suc n) = fwd_next p # fwd_seq (fwd_next p) n"

fun rev_seq :: "u8 \<Rightarrow> nat \<Rightarrow> u8 list" where
  "rev_seq p 0 = []"
| "rev_seq p (Suc n) = rev_next p # rev_seq (rev_next p) n"

section \<open>I2C transactions with the MPU9250\<close>

text \<open>
  The I2C peripheral is seen through two volatile registers. Every wait of the
  driver polls the status register for one flag at most \<^verbatim>\<open>I2C_TIMEOUT\<close> + 1 times and
  then goes on whether the flag came or not. The hardware is a pair of oracles:
  \<open>flag_seen k\<close> says whether the \<open>k\<close>-th status poll finds the flag it waits
  for, \<open>dr_read k\<close> is the byte the \<open>k\<close>-th read of the data register returns. The
  driver's state counts the polls and reads made and logs what it wrote to the bus.
\<close>

datatype i2c_op = Start | Stop | AckOn | AckOff | WriteDR u8 | ClearADDR

record i2c_env =
  flag_seen :: "nat \<Rightarrow> bool"
  dr_read :: "nat \<Rightarrow> u8"

record i2c =
  i2c_polls :: nat
  i2c_reads :: nat
  i2c_ops :: "i2c_op list"

definition i2c0 :: i2c where
  "i2c0 = \<lparr> i2c_polls = 0, i2c_reads = 0, i2c_ops = [] \<rparr>"

definition MPU_ADDR :: u8 where "MPU_ADDR = push_bit 1 0x68"
definition REG_PWR_MGMT_1 :: u8 where "REG_PWR_MGMT_1 = 0x6B"
definition REG_SMPLRT_DIV :: u8 where "REG_SMPLRT_DIV = 0x19"
definition REG_CONFIG :: u8 where "REG_CONFIG = 0x1A"
definition REG_GYRO_CONFIG :: u8 where "REG_GYRO_CONFIG = 0x1B"
definition REG_ACCEL_CONFIG :: u8 where "REG_ACCEL_CONFIG = 0x1C"
definition REG_ACCEL_CONFIG2 :: u8 where "REG_ACCEL_CONFIG2 = 0x1D"
definition REG_ACCEL_XOUT_H :: u8 where "REG_ACCEL_XOUT_H = 0x3B"
definition I2C_TIMEOUT :: nat where "I2C_TIMEOUT = 10000"

text \<open>
  \<^verbatim>\<open>while(!(I2C1->SR1 & FLAG) && timeout--);\<close> from poll number \<open>k\<close> with \<open>t\<close> left:
  the result is the number of the next poll. With nothing left the loop still polls
  once.
\<close>

fun i2c_wait :: "(nat \<Rightarrow> bool) \<Rightarrow> nat \<Rightarrow> nat \<Rightarrow> nat" where
  "i2c_wait f 0 k = Suc k"
| "i2c_wait f (Suc t) k = (if f k then Suc k else i2c_wait f t (Suc k))"

definition i2c_poll :: "i2c_env \<Rightarrow> i2c \<Rightarrow> i2c" where
  "i2c_poll env s = s\<lparr>i2c_polls := i2c_wait (flag_seen env) I2C_TIMEOUT (i2c_polls s)\<rparr>"

definition i2c_log :: "i2c_op \<Rightarrow> i2c \<Rightarrow> i2c" where
  "i2c_log x s = s\<lparr>i2c_ops := i2c_ops s @ [x]\<rparr>"

definition i2c_start :: "i2c_env \<Rightarrow> i2c \<Rightarrow> i2c" where
  "i2c_start env s = i2c_poll env (i2c_log Start s)"

definition i2c_stop :: "i2c \<Rightarrow> i2c" where
  "i2c_stop s = i2c_log Stop s"

definition i2c_write_addr :: "i2c_env \<Rightarrow> u8 \<Rightarrow> i2c \<Rightarrow> i2c" where
  "i2c_write_addr env addr s = i2c_log ClearADDR (i2c_poll env (i2c_log (WriteDR addr) s))"

definition i2c_write_data :: "i2c_env \<Rightarrow> u8 \<Rightarrow> i2c \<Rightarrow> i2c" where
  "i2c_write_data env data s = i2c_poll env (i2c_log (WriteDR data) s)"

definition i2c_take :: "i2c_env \<Rightarrow> i2c \<Rightarrow> u8 \<times> i2c" where
  "i2c_take env s = (dr_read env (i2c_reads s), s\<lparr>i2c_reads := Suc (i2c_reads s)\<rparr>)"

definition i2c_read_ack :: "i2c_env \<Rightarrow> i2c \<Rightarrow> u8 \<times> i2c" where
  "i2c_read_ack env s = i2c_take env (i2c_poll env (i2c_log AckOn s))"

definition i2c_read_nack :: "i2c_env \<Rightarrow> i2c \<Rightarrow> u8 \<times> i2c" where
  "i2c_read_nack env s = i2c_take env (i2c_poll env (i2c_log AckOff s))"

definition i2c_write :: "i2c_env \<Rightarrow> u8 \<Rightarrow> u8 \<Rightarrow> i2c \<Rightarrow> i2c" where
  "i2c_write env reg val s =
     i2c_stop (i2c_write_data env val (i2c_write_data env reg
       (i2c_write_addr env MPU_ADDR (i2c_start env s))))"

text \<open>
  The loop of \<^verbatim>\<open>i2c_read_burst\<close>: \<open>i\<close> runs from 0 while \<open>i < n\<close>; the last byte is
  read with NACK (\<^verbatim>\<open>i == n - 1\<close>, compared as \<^verbatim>\<open>int\<close>). A write past the end of the
  destination is a fault.
\<close>

function i2c_burst_loop :: "i2c_env \<Rightarrow> nat \<Rightarrow> nat \<Rightarrow> u8 list \<Rightarrow> i2c \<Rightarrow> fault + (u8 list \<times> i2c)" where
  "i2c_burst_loop env n i dst s =
     (if i < n then
        (let r = (if int i = int n - 1 then i2c_read_nack env s else i2c_read_ack env s) in
         if i < length dst then i2c_burst_loop env n (Suc i) (dst[i := fst r]) (snd r)
         else Inl OutOfBounds)
      else Inr (dst, s))"
  by pat_completeness auto
termination
  by (relation "measure (\<lambda>(env, n, i, dst, s). n - i)") auto

declare i2c_burst_loop.simps [simp del]

definition i2c_read_burst :: "i2c_env \<Rightarrow> u8 \<Rightarrow> u8 \<Rightarrow> u8 list \<Rightarrow> i2c \<Rightarrow> fault + ((u8 \<times> u8 list) \<times> i2c)" where
  "i2c_read_burst env reg n dst s =
     (let s1 = i2c_write_addr env (MPU_ADDR OR 1) (i2c_start env
                 (i2c_write_data env reg (i2c_write_addr env MPU_ADDR (i2c_start env s))))
      in case i2c_burst_loop env (unat n) 0 dst s1 of
           Inl f \<Rightarrow> Inl f
         | Inr (buf, s2) \<Rightarrow> Inr ((n, buf), i2c_stop s2))"

text \<open>\<^verbatim>\<open>delay_ms\<close> is a bounded busy loop with no effect on any state modelled here.\<close>

definition mpu_begin :: "i2c_env \<Rightarrow> i2c \<Rightarrow> u8 \<times> i2c" where
  "mpu_begin env s =
     (1, i2c_write env REG_ACCEL_CONFIG2 0x03 (i2c_write env REG_ACCEL_CONFIG 0x08
          (i2c_write env REG_GYRO_CONFIG 0x18 (i2c_write env REG_CONFIG 0x03
          (i2c_write env REG_SMPLRT_DIV 9 (i2c_write env REG_PWR_MGMT_1 0x01 s))))))"

section \<open>Reading a sample\<close>

text \<open>The six \<^verbatim>\<open>float\<close> variables that \<^verbatim>\<open>mpu_read\<close> writes through its pointers.\<close>

record imu =
  imu_ax :: f32
  imu_ay :: f32
  imu_az :: f32
  imu_gx :: f32
  imu_gy :: f32
  imu_gz :: f32

definition imu_zero :: imu where
  "imu_zero = \<lparr> imu_ax = 0, imu_ay = 0, imu_az = 0, imu_gx = 0, imu_gy = 0, imu_gz = 0 \<rparr>"

text \<open>
  \<^verbatim>\<open>(int16_t)((hi << 8) | lo)\<close>: the bytes are promoted to \<^verbatim>\<open>int\<close>, and the conversion
  to \<^verbatim>\<open>int16_t\<close> keeps the low sixteen bits.
\<close>

definition int16_of :: "u8 \<Rightarrow> u8 \<Rightarrow> 16 word" where
  "int16_of hi lo = word_of_int (push_bit 8 (uint hi) OR uint lo)"

definition ACCEL_S :: f32 where
  "ACCEL_S = f32_div (f32_lit 980665 100000) (f32_lit 8192 1)"

definition GYRO_S :: f32 where
  "GYRO_S = f32_lit 1064225 1000000000"

text \<open>Lines 191 to 206 of \<^verbatim>\<open>mpu_read\<close>: the conversion of the fourteen bytes.\<close>

definition mpu_convert :: "u8 list \<Rightarrow> f32 \<Rightarrow> imu" where
  "mpu_convert buf bias =
     (let ax_raw = int16_of (buf ! 0) (buf ! 1);
          ay_raw = int16_of (buf ! 2) (buf ! 3);
          az_raw = int16_of (buf ! 4) (buf ! 5);
          gx_raw = int16_of (buf ! 8) (buf ! 9);
          gy_raw = int16_of (buf ! 10) (buf ! 11);
          gz_raw = int16_of (buf ! 12) (buf ! 13)
      in \<lparr> imu_ax = f32_mul (f32_of_int (sint ax_raw)) ACCEL_S,
           imu_ay = f32_mul (f32_of_int (sint ay_raw)) ACCEL_S,
           imu_az = f32_mul (f32_of_int (sint az_raw)) ACCEL_S,
           imu_gx = f32_mul (f32_of_int (sint gx_raw)) GYRO_S,
           imu_gy = f32_mul (f32_of_int (sint gy_raw)) GYRO_S,
           imu_gz = f32_sub (f32_mul (f32_of_int (sint gz_raw)) GYRO_S) bias \<rparr>)"

text \<open>
  \<^verbatim>\<open>mpu_read\<close> from the point where the burst read has returned \<open>ret\<close> and filled
  \<open>buf\<close>: on \<^verbatim>\<open>ret != 14\<close> it returns 0 and leaves the six variables as they were.
\<close>

definition mpu_read_after_burst :: "u8 \<Rightarrow> u8 list \<Rightarrow> f32 \<Rightarrow> imu \<Rightarrow> u8 \<times> imu" where
  "mpu_read_after_burst ret buf bias vals =
     (if ret \<noteq> 14 then (0, vals) else (1, mpu_convert buf bias))"

text \<open>
  The local \<^verbatim>\<open>buf[14]\<close> is not initialised; the model starts it at zero. \<open>bias\<close> is
  the global \<^verbatim>\<open>gyro_bias_z\<close> at the call.
\<close>

definition mpu_read :: "i2c_env \<Rightarrow> f32 \<Rightarrow> imu \<Rightarrow> i2c \<Rightarrow> fault + ((u8 \<times> imu) \<times> i2c)" where
  "mpu_read env bias vals s =
     (case i2c_read_burst env REG_ACCEL_XOUT_H 14 (replicate 14 0) s of
        Inl f \<Rightarrow> Inl f
      | Inr ((ret, buf), s') \<Rightarrow> Inr (mpu_read_after_burst ret buf bias vals, s'))"

section \<open>The packet\<close>

record Payload =
  t_ms :: u32
  ticksFL :: i32
  ticksFR :: i32
  ticksBL :: i32
  ticksBR :: i32
  ax :: f32
  ay :: f32
  az :: f32
  gx :: f32
  gy :: f32
  gz :: f32
  flags :: u16

text \<open>
  \<^verbatim>\<open>send_payload\<close> reads the structure through a \<^verbatim>\<open>uint8_t\<close> pointer, so what it
  sends is the object representation: the fields in declaration order, without
  padding (the structure is packed), each in the byte order of the machine. The
  STM32F103 is little-endian; the byte order is a parameter so that the dependence
  on it can be stated.
\<close>

datatype byte_order = LittleEndian | BigEndian

definition le_bytes32 :: "u32 \<Rightarrow> u8 list" where
  "le_bytes32 w = [ucast w, ucast (drop_bit 8 w), ucast (drop_bit 16 w), ucast (drop_bit 24 w)]"

definition le_bytes16 :: "u16 \<Rightarrow> u8 list" where
  "le_bytes16 w = [ucast w, ucast (drop_bit 8 w)]"

definition obj_bytes32 :: "byte_order \<Rightarrow> u32 \<Rightarrow> u8 list" where
  "obj_bytes32 e w = (case e of LittleEndian \<Rightarrow> le_bytes32 w | BigEndian \<Rightarrow> rev (le_bytes32 w))"

definition obj_bytes16 :: "byte_order \<Rightarrow> u16 \<Rightarrow> u8 list" where
  "obj_bytes16 e w = (case e of LittleEndian \<Rightarrow> le_bytes16 w | BigEndian \<Rightarrow> rev (le_bytes16 w))"

definition Payload_bytes :: "byte_order \<Rightarrow> Payload \<Rightarrow> u8 list" where
  "Payload_bytes e p =
     obj_bytes32 e (t_ms p) @
     obj_bytes32 e (ticksFL p) @ obj_bytes32 e (ticksFR p) @
     obj_bytes32 e (ticksBL p) @ obj_bytes32 e (ticksBR p) @
     obj_bytes32 e (ax p) @ obj_bytes32 e (ay p) @ obj_bytes32 e (az p) @
     obj_bytes32 e (gx p) @ obj_bytes32 e (gy p) @ obj_bytes32 e (gz p) @
     obj_bytes16 e (flags p)"

definition sizeof_Payload :: nat where
  "sizeof_Payload = 4 + 4 * 4 + 3 * 4 + 3 * 4 + 2"

function checksum_loop :: "u8 list \<Rightarrow> nat \<Rightarrow> nat \<Rightarrow> u8 \<Rightarrow> fault + u8" where
  "checksum_loop p n i c =
     (if i < n then
        (if i < length p then checksum_loop p n (Suc i) (c XOR p ! i) else Inl OutOfBounds)
      else Inr c)"
  by pat_completeness auto
termination
  by (relation "measure (\<lambda>(p, n, i, c). n - i)") auto

declare checksum_loop.simps [simp del]

definition checksum_xor :: "u8 list \<Rightarrow> u16 \<Rightarrow> fault + u8" where
  "checksum_xor p n = checksum_loop p (unat n) 0 0"

text \<open>
  \<^verbatim>\<open>uart_send_byte\<close> waits, without a bound, until the transmit register is empty:
  \<open>txe k\<close> says whether the \<open>k\<close>-th poll of the status register finds it empty.
  A wait that never ends is \<open>None\<close>.
\<close>

record uart =
  tx_polls :: nat
  tx_out :: "u8 list"

definition uart0 :: uart where
  "uart0 = \<lparr> tx_polls = 0, tx_out = [] \<rparr>"

partial_function (option) uart_wait :: "(nat \<Rightarrow> bool) \<Rightarrow> nat \<Rightarrow> nat option" where
  "uart_wait txe k = (if txe k then Some (Suc k) else uart_wait txe (Suc k))"

definition uart_send_byte :: "(nat \<Rightarrow> bool) \<Rightarrow> u8 \<Rightarrow> uart \<Rightarrow> fault + uart" where
  "uart_send_byte txe b u =
     (case uart_wait txe (tx_polls u) of
        None \<Rightarrow> Inl Hang
      | Some k \<Rightarrow> Inr (u\<lparr>tx_polls := k, tx_out := tx_out u @ [b]\<rparr>))"

function send_loop :: "(nat \<Rightarrow> bool) \<Rightarrow> u8 list \<Rightarrow> nat \<Rightarrow> nat \<Rightarrow> uart \<Rightarrow> fault + uart" where
  "send_loop txe bytes n i u =
     (if i < n then
        (if i < length bytes then
           (case uart_send_byte txe (bytes ! i) u of
              Inl f \<Rightarrow> Inl f
            | Inr u' \<Rightarrow> send_loop txe bytes n (Suc i) u')
         else Inl OutOfBounds)
      else Inr u)"
  by pat_completeness auto
termination
  by (relation "measure (\<lambda>(txe, bytes, n, i, u). n - i)") auto

declare send_loop.simps [simp del]

definition send_payload :: "byte_order \<Rightarrow> (nat \<Rightarrow> bool) \<Rightarrow> Payload \<Rightarrow> uart \<Rightarrow> fault + uart" where
  "send_payload e txe p u =
     (case uart_send_byte txe 0xAA u of
        Inl f \<Rightarrow> Inl f
      | Inr u1 \<Rightarrow>
     (case uart_send_byte txe 0x55 u1 of
        Inl f \<Rightarrow> Inl f
      | Inr u2 \<Rightarrow>
     (case send_loop txe (Payload_bytes e p) sizeof_Payload 0 u2 of
        Inl f \<Rightarrow> Inl f
      | Inr u3 \<Rightarrow>
     (case checksum_xor (Payload_bytes e p) (of_nat sizeof_Payload) of
        Inl f \<Rightarrow> Inl f
      | Inr cs \<Rightarrow> uart_send_byte txe cs u3))))"

text \<open>
  The wire format of the specification, read back from a frame: little-endian
  fields at fixed offsets.
\<close>

definition le_word32 :: "u8 list \<Rightarrow> nat \<Rightarrow> u32" where
  "le_word32 f i = ucast (f ! i) OR push_bit 8 (ucast (f ! (i + 1)))
                   OR push_bit 16 (ucast (f ! (i + 2))) OR push_bit 24 (ucast (f ! (i + 3)))"

definition le_word16 :: "u8 list \<Rightarrow> nat \<Rightarrow> u16" where
  "le_word16 f i = ucast (f ! i) OR push_bit 8 (ucast (f ! (i + 1)))"

definition parse_frame :: "u8 list \<Rightarrow> Payload" where
  "parse_frame f =
     \<lparr> t_ms = le_word32 f 2,
       ticksFL = le_word32 f 6, ticksFR = le_word32 f 10,
       ticksBL = le_word32 f 14, ticksBR = le_word32 f 18,
       ax = le_word32 f 22, ay = le_word32 f 26, az = le_word32 f 30,
       gx = le_word32 f 34, gy = le_word32 f 38, gz = le_word32 f 42,
       flags = le_word16 f 46 \<rparr>"

definition xor_bytes :: "u8 list \<Rightarrow> u8" where
  "xor_bytes bs = foldr (XOR) bs 0"

definition frame_bytes :: "byte_order \<Rightarrow> Payload \<Rightarrow> u8 list" where
  "frame_bytes e p = [0xAA, 0x55] @ Payload_bytes e p @ [xor_bytes (Payload_bytes e p)]"

section \<open>Interrupt handlers\<close>

definition SysTick_Handler :: "globals \<Rightarrow> globals" where
  "SysTick_Handler g = g\<lparr>systick_millis := systick_millis g + 1\<rparr>"

definition millis :: "globals \<Rightarrow> u32" where
  "millis g = systick_millis g"

text \<open>
  The EXTI vectors. Each \<^verbatim>\<open>if(EXTI->PR & BIT(n))\<close> reads the pending register anew:
  \<open>pr1\<close>, \<open>pr2\<close>, \<open>pr3\<close> are the values read, and \<open>x1\<close>, \<open>x2\<close>, \<open>x3\<close> the pin
  register values that the handler called under that test would see.
\<close>

definition EXTI9_5_IRQHandler ::
  "u32 \<Rightarrow> u32 \<Rightarrow> u32 \<times> u32 \<Rightarrow> u32 \<times> u32 \<Rightarrow> globals \<Rightarrow> fault + globals" where
  "EXTI9_5_IRQHandler pr1 pr2 x1 x2 g =
     (case (if pr1 AND BIT 8 \<noteq> 0 then isrFL (fst x1) (snd x1) g else Inr g) of
        Inl f \<Rightarrow> Inl f
      | Inr g1 \<Rightarrow> (if pr2 AND BIT 9 \<noteq> 0 then isrFL (fst x2) (snd x2) g1 else Inr g1))"

definition EXTI15_10_IRQHandler ::
  "u32 \<Rightarrow> u32 \<Rightarrow> u32 \<Rightarrow> u32 \<times> u32 \<Rightarrow> u32 \<times> u32 \<Rightarrow> u32 \<times> u32 \<Rightarrow> globals \<Rightarrow> fault + globals" where
  "EXTI15_10_IRQHandler pr1 pr2 pr3 x1 x2 x3 g =
     (case (if pr1 AND BIT 10 \<noteq> 0 then isrBL (fst x1) (snd x1) g else Inr g) of
        Inl f \<Rightarrow> Inl f
      | Inr g1 \<Rightarrow>
     (case (if pr2 AND BIT 11 \<noteq> 0 then isrBL (fst x2) (snd x2) g1 else Inr g1) of
        Inl f \<Rightarrow> Inl f
      | Inr g2 \<Rightarrow> (if pr3 AND BIT 15 \<noteq> 0 then isrFR (fst x3) (snd x3) g2 else Inr g2)))"

definition EXTI3_IRQHandler :: "u32 \<Rightarrow> u32 \<times> u32 \<Rightarrow> globals \<Rightarrow> fault + globals" where
  "EXTI3_IRQHandler pr1 x1 g = (if pr1 AND BIT 3 \<noteq> 0 then isrFR (fst x1) (snd x1) g else Inr g)"

definition EXTI4_IRQHandler :: "u32 \<Rightarrow> u32 \<times> u32 \<Rightarrow> globals \<Rightarrow> fault + globals" where
  "EXTI4_IRQHandler pr1 x1 g = (if pr1 AND BIT 4 \<noteq> 0 then isrBR (fst x1) (snd x1) g else Inr g)"

text \<open>
  \<^verbatim>\<open>EXTI9_5_IRQHandler_PB5\<close> is a function of the file that no vector and no other
  function calls.
\<close>

definition EXTI9_5_IRQHandler_PB5 :: "u32 \<Rightarrow> u32 \<times> u32 \<Rightarrow> globals \<Rightarrow> fault + globals" where
  "EXTI9_5_IRQHandler_PB5 pr1 x1 g =
     (if pr1 AND BIT 5 \<noteq> 0 then isrBR (fst x1) (snd x1) g else Inr g)"

section \<open>The main program\<close>

text \<open>
  The state of the system: the globals, the two peripherals, whether the EXTI lines
  are unmasked, and where \<^verbatim>\<open>main\<close> stands. \<^verbatim>\<open>main\<close> is cut at the points where it
  reads what interrupts write: before the bring-up (\<open>Boot\<close>), at the top of the loop
  with the local \<^verbatim>\<open>last\<close> (\<open>LoopTop\<close>), after \<^verbatim>\<open>last = now\<close> (\<open>Snapshot\<close>), and after
  the four counters are copied with interrupts disabled (\<open>Send\<close>, with \<^verbatim>\<open>now\<close> and
  the four copies). \<open>Halted\<close> is the \<^verbatim>\<open>while(1);\<close> after a failed \<^verbatim>\<open>mpu_begin\<close>.
\<close>

datatype pc = Boot | Halted | LoopTop u32 | Snapshot u32 | Send u32 i32 i32 i32 i32

record sys =
  glob :: globals
  bus :: i2c
  ser :: uart
  pc :: pc
  exti_enabled :: bool

definition sys0 :: sys where
  "sys0 = \<lparr> glob = globals0, bus = i2c0, ser = uart0, pc = Boot, exti_enabled = False \<rparr>"

text \<open>
  The calibration loop of \<^verbatim>\<open>main\<close>: \<open>n\<close> reads, each added to the local \<^verbatim>\<open>sum\<close>
  (\<open>acc\<close>) when \<^verbatim>\<open>mpu_read\<close> returns non-zero. The six locals of the loop body are
  not initialised (\<open>junk\<close>). Then \<^verbatim>\<open>gyro_bias_z = sum / N\<close>.
\<close>

function calib_loop ::
  "i2c_env \<Rightarrow> f32 \<Rightarrow> imu \<Rightarrow> nat \<Rightarrow> nat \<Rightarrow> f32 \<Rightarrow> i2c \<Rightarrow> fault + (f32 \<times> i2c)" where
  "calib_loop env bias junk n i acc s =
     (if i < n then
        (case mpu_read env bias junk s of
           Inl f \<Rightarrow> Inl f
         | Inr ((ok, v), s') \<Rightarrow>
             calib_loop env bias junk n (Suc i)
               (if ok \<noteq> 0 then f32_add acc (f32_add (imu_gz v) bias) else acc) s')
      else Inr (acc, s))"
  by pat_completeness auto
termination
  by (relation "measure (\<lambda>(env, bias, junk, n, i, acc, s). n - i)") auto

declare calib_loop.simps [simp del]

definition calibrate :: "i2c_env \<Rightarrow> f32 \<Rightarrow> imu \<Rightarrow> i2c \<Rightarrow> fault + (f32 \<times> i2c)" where
  "calibrate env bias junk s =
     (case calib_loop env bias junk 400 0 0 s of
        Inl f \<Rightarrow> Inl f
      | Inr (acc, s') \<Rightarrow> Inr (f32_div acc (f32_of_int 400), s'))"

text \<open>
  \<^verbatim>\<open>main\<close> from the return of \<^verbatim>\<open>mpu_begin\<close> with result \<open>r\<close> to the first test of the
  loop: the halt, or calibration, the capture of the four phases (\<open>pins w\<close> are the
  register values the two reads for wheel \<open>w\<close> see) and \<^verbatim>\<open>exti_init\<close>. The clock, pin,
  UART and I2C bring-up before it writes configuration registers only.
\<close>

definition main_after_begin ::
  "u8 \<Rightarrow> i2c_env \<Rightarrow> imu \<Rightarrow> (wheel \<Rightarrow> u32 \<times> u32) \<Rightarrow> sys \<Rightarrow> fault + sys" where
  "main_after_begin r env junk pins s =
     (if r = 0 then Inr (s\<lparr>pc := Halted\<rparr>)
      else
        (case calibrate env (gyro_bias_z (glob s)) junk (bus s) of
           Inl f \<Rightarrow> Inl f
         | Inr (b, bus') \<Rightarrow>
             Inr (s\<lparr> glob := (glob s)\<lparr> gyro_bias_z := b,
                                       prevFL := rdFL (fst (pins FL)) (snd (pins FL)),
                                       prevFR := rdFR (fst (pins FR)) (snd (pins FR)),
                                       prevBL := rdBL (fst (pins BL)) (snd (pins BL)),
                                       prevBR := rdBR (fst (pins BR)) (snd (pins BR)) \<rparr>,
                    bus := bus', pc := LoopTop 0, exti_enabled := True \<rparr>)))"

definition main_boot :: "i2c_env \<Rightarrow> imu \<Rightarrow> (wheel \<Rightarrow> u32 \<times> u32) \<Rightarrow> sys \<Rightarrow> fault + sys" where
  "main_boot env junk pins s =
     main_after_begin (fst (mpu_begin env (bus s))) env junk pins
       (s\<lparr>bus := snd (mpu_begin env (bus s))\<rparr>)"

text \<open>
  The test \<^verbatim>\<open>if(now - last < 10) continue;\<close> and \<^verbatim>\<open>last = now\<close>; \<open>last_t\<close> is the
  local \<^verbatim>\<open>last\<close>.
\<close>

definition main_poll :: "u32 \<Rightarrow> sys \<Rightarrow> sys" where
  "main_poll last_t s =
     (let now = millis (glob s) in
      if now - last_t < 10 then s\<lparr>pc := LoopTop last_t\<rparr> else s\<lparr>pc := Snapshot now\<rparr>)"

definition main_snapshot :: "u32 \<Rightarrow> sys \<Rightarrow> sys" where
  "main_snapshot now s =
     s\<lparr>pc := Send now (encFL (glob s)) (encFR (glob s)) (encBL (glob s)) (encBR (glob s))\<rparr>"

definition build_payload :: "u32 \<Rightarrow> i32 \<Rightarrow> i32 \<Rightarrow> i32 \<Rightarrow> i32 \<Rightarrow> imu \<Rightarrow> u8 \<Rightarrow> Payload" where
  "build_payload now tFL tFR tBL tBR v ok =
     \<lparr> t_ms = now, ticksFL = tFL, ticksFR = tFR, ticksBL = tBL, ticksBR = tBR,
       ax = imu_ax v, ay = imu_ay v, az = imu_az v,
       gx = imu_gx v, gy = imu_gy v, gz = imu_gz v,
       flags = (if ok \<noteq> 0 then 0 else 0x0001) \<rparr>"

definition main_send ::
  "byte_order \<Rightarrow> i2c_env \<Rightarrow> (nat \<Rightarrow> bool) \<Rightarrow> u32 \<Rightarrow> i32 \<Rightarrow> i32 \<Rightarrow> i32 \<Rightarrow> i32 \<Rightarrow> sys \<Rightarrow> fault + sys" where
  "main_send e env txe now tFL tFR tBL tBR s =
     (case mpu_read env (gyro_bias_z (glob s)) imu_zero (bus s) of
        Inl f \<Rightarrow> Inl f
      | Inr ((ok, v), bus') \<Rightarrow>
          (case send_payload e txe (build_payload now tFL tFR tBL tBR v ok) (ser s) of
             Inl f \<Rightarrow> Inl f
           | Inr ser' \<Rightarrow> Inr (s\<lparr>bus := bus', ser := ser', pc := LoopTop now\<rparr>)))"

text \<open>
  One step of the system on a machine of byte order \<open>e\<close>: the tick, an EXTI vector
  (once \<^verbatim>\<open>exti_init\<close> has run), or the next piece of \<^verbatim>\<open>main\<close>. The oracles and
  register values of a step are arbitrary. A piece of \<^verbatim>\<open>main\<close> that does not return
  makes no step.
\<close>

inductive step :: "byte_order \<Rightarrow> sys \<Rightarrow> sys \<Rightarrow> bool" for e :: byte_order where
  tick: "step e s (s\<lparr>glob := SysTick_Handler (glob s)\<rparr>)"
| exti9_5: "exti_enabled s \<Longrightarrow> EXTI9_5_IRQHandler pr1 pr2 x1 x2 (glob s) = Inr g'
     \<Longrightarrow> step e s (s\<lparr>glob := g'\<rparr>)"
| exti15_10: "exti_enabled s \<Longrightarrow> EXTI15_10_IRQHandler pr1 pr2 pr3 x1 x2 x3 (glob s) = Inr g'
     \<Longrightarrow> step e s (s\<lparr>glob := g'\<rparr>)"
| exti3: "exti_enabled s \<Longrightarrow> EXTI3_IRQHandler pr1 x1 (glob s) = Inr g'
     \<Longrightarrow> step e s (s\<lparr>glob := g'\<rparr>)"
| exti4: "exti_enabled s \<Longrightarrow> EXTI4_IRQHandler pr1 x1 (glob s) = Inr g'
     \<Longrightarrow> step e s (s\<lparr>glob := g'\<rparr>)"
| boot: "pc s = Boot \<Longrightarrow> main_boot env junk pins s = Inr s' \<Longrightarrow> step e s s'"
| poll: "pc s = LoopTop last_t \<Longrightarrow> step e s (main_poll last_t s)"
| snapshot: "pc s = Snapshot now \<Longrightarrow> step e s (main_snapshot now s)"
| send: "pc s = Send now tFL tFR tBL tBR
     \<Longrightarrow> main_send e env txe now tFL tFR tBL tBR s = Inr s' \<Longrightarrow> step e s s'"

definition reachable :: "byte_order \<Rightarrow> sys \<Rightarrow> bool" where
  "reachable e s = rtranclp (step e) sys0 s"

section \<open>Auxiliary notions for the statements\<close>

text \<open>The table entry for a transition, as a signed number.\<close>

definition qdelta :: "u8 \<Rightarrow> u8 \<Rightarrow> int" where
  "qdelta p n = sint (qLUT ! qidx p n)"

text \<open>The bytes the UART has sent between two of its states.\<close>

definition sent :: "uart \<Rightarrow> uart \<Rightarrow> u8 list" where
  "sent u u' = drop (length (tx_out u)) (tx_out u')"

text \<open>The fourteen bytes the next burst read returns.\<close>

definition burst_bytes :: "i2c_env \<Rightarrow> i2c \<Rightarrow> u8 list" where
  "burst_bytes env s = map (\<lambda>j. dr_read env (i2c_reads s + j)) [0..<14]"

text \<open>A transmitter that is always ready, and pin register values for the examples.\<close>

definition txe_always :: "nat \<Rightarrow> bool" where
  "txe_always k = True"

text \<open>A sensor that answers every poll at once and returns zero bytes.\<close>

definition env_zero :: i2c_env where
  "env_zero = \<lparr> flag_seen = (\<lambda>k. True), dr_read = (\<lambda>k. 0) \<rparr>"

definition pins_zero :: "wheel \<Rightarrow> u32 \<times> u32" where
  "pins_zero w = (0, 0)"

definition payload_example :: Payload where
  "payload_example =
     \<lparr> t_ms = 1, ticksFL = 2, ticksFR = 3, ticksBL = 4, ticksBR = 5,
       ax = 0x409CE80A, ay = 0, az = 0, gx = 0, gy = 0, gz = 0, flags = 0 \<rparr>"

definition edges_example :: "(u32 \<times> u32) list" where
  "edges_example = [(0x100, 0x100), (0x300, 0x300), (0x100, 0x100), (0, 0)]"

text \<open>
  The sixteen-bit signed value of a big-endian register pair, in the words of the
  specification.
\<close>

definition be16_signed :: "u8 \<Rightarrow> u8 \<Rightarrow> int" where
  "be16_signed hi lo =
     (if 256 * uint hi + uint lo < 32768 then 256 * uint hi + uint lo
      else 256 * uint hi + uint lo - 65536)"

text \<open>
  The raw gyro-Z value of the \<open>j\<close>-th burst read after bus state \<open>s\<close> (bytes 12 and
  13 of the burst), and the scaled reading \<^verbatim>\<open>gz_raw * GYRO_S\<close>.
\<close>

definition gz_raw :: "i2c_env \<Rightarrow> i2c \<Rightarrow> nat \<Rightarrow> 16 word" where
  "gz_raw env s j =
     int16_of (dr_read env (i2c_reads s + 14 * j + 12)) (dr_read env (i2c_reads s + 14 * j + 13))"

definition gz_scaled :: "16 word \<Rightarrow> f32" where
  "gz_scaled v = f32_mul (f32_of_int (sint v)) GYRO_S"

text \<open>
  One pass of the calibration loop on the running sum \<open>a\<close> when the reading is \<open>x\<close>
  and the bias variable holds \<open>b\<close>: \<^verbatim>\<open>gz = x - b\<close> in \<^verbatim>\<open>mpu_read\<close>, then
  \<^verbatim>\<open>sum += (gz + gyro_bias_z)\<close>.
\<close>

definition calib_add :: "f32 \<Rightarrow> f32 \<Rightarrow> f32 \<Rightarrow> f32" where
  "calib_add b x a = f32_add a (f32_add (f32_sub x b) b)"

text \<open>
  A sensor whose every burst read gives gyro-Z raw value 1 (byte 13 of each burst is
  1, all other bytes 0), and a burst with accelerometer X raw value 4096.
\<close>

definition env_one :: i2c_env where
  "env_one = \<lparr> flag_seen = (\<lambda>k. True), dr_read = (\<lambda>k. if k mod 14 = 13 then 1 else 0) \<rparr>"

definition buf_example :: "u8 list" where
  "buf_example = [0x10, 0x00, 0, 0, 0, 0, 0, 0, 0, 0, 0, 0, 0, 0]"

text \<open>
  The rounding and the addition once more, in stages that take their arguments
  evaluated; they serve to compute on numerals. \<open>f32_sum_rep n x a\<close> adds \<open>x\<close> to
  \<open>a\<close>, \<open>n\<close> times.
\<close>

definition rm_e :: "int \<Rightarrow> int \<Rightarrow> int \<Rightarrow> int" where
  "rm_e p q d = (if (if 0 \<le> d then q * pow2 d \<le> p else q \<le> p * pow2 (- d)) then d else d - 1)"

definition rm_pack :: "int \<Rightarrow> int" where
  "rm_pack b = (if f32_inf_bits \<le> b then f32_inf_bits else b)"

definition rm_fin :: "int \<Rightarrow> int \<Rightarrow> int \<Rightarrow> int \<Rightarrow> int" where
  "rm_fin E den n r =
     rm_pack ((E + 126) * 8388608 + (if den < 2 * r \<or> (2 * r = den \<and> odd n) then n + 1 else n))"

definition rm_quot :: "int \<Rightarrow> int \<Rightarrow> int \<Rightarrow> int" where
  "rm_quot E num den = rm_fin E den (num div den) (num mod den)"

definition rm_E :: "int \<Rightarrow> int \<Rightarrow> int \<Rightarrow> int" where
  "rm_E p q E = rm_quot E (if 0 \<le> 23 - E then p * pow2 (23 - E) else p)
                         (if 0 \<le> 23 - E then q else q * pow2 (- (23 - E)))"

definition add_round :: "int \<Rightarrow> int \<Rightarrow> bool \<Rightarrow> f32" where
  "add_round k x z = (if x = 0 then f32_make z 0 else f32_round_scaled (x < 0) \<bar>x\<bar> k)"

definition add_exact :: "bool \<Rightarrow> int \<Rightarrow> int \<Rightarrow> bool \<Rightarrow> int \<Rightarrow> int \<Rightarrow> int \<Rightarrow> f32" where
  "add_exact sa ma ka sb mb kb k =
     add_round k ((if sa then - ma else ma) * pow2 (ka - k) + (if sb then - mb else mb) * pow2 (kb - k))
       (sa \<and> sb)"

definition add_fields :: "int \<Rightarrow> int \<Rightarrow> bool \<Rightarrow> int \<Rightarrow> int \<Rightarrow> bool \<Rightarrow> f32" where
  "add_fields ea fa sa eb fb sb =
     add_exact sa (if ea = 0 then fa else 8388608 + fa) (if ea = 0 then - 149 else ea - 150)
               sb (if eb = 0 then fb else 8388608 + fb) (if eb = 0 then - 149 else eb - 150)
               (min (if ea = 0 then - 149 else ea - 150) (if eb = 0 then - 149 else eb - 150))"

definition add_bits :: "int \<Rightarrow> int \<Rightarrow> f32" where
  "add_bits i j =
     add_fields (i div 8388608 mod 256) (i mod 8388608) (2147483648 \<le> i)
                (j div 8388608 mod 256) (j mod 8388608) (2147483648 \<le> j)"

function f32_sum_rep :: "int \<Rightarrow> f32 \<Rightarrow> f32 \<Rightarrow> f32" where
  "f32_sum_rep n x a = (if n \<le> 0 then a else f32_sum_rep (n - 1) x (f32_add a x))"
  by pat_completeness auto
termination
  by (relation "measure (\<lambda>(n, x, a). nat n)") auto

declare f32_sum_rep.simps [simp del]

text \<open>
  Everything the UART has sent is a sequence of whole frames whose flags are zero.
\<close>

definition frames_ok :: "byte_order \<Rightarrow> sys \<Rightarrow> bool" where
  "frames_ok e s = (\<exists>ps. tx_out (ser s) = concat (map (frame_bytes e) ps)
                         \<and> list_all (\<lambda>p. flags p = 0) ps)"

text \<open>
  What holds in every state the system reaches: before the bring-up is over nothing
  is sent and the EXTI lines are masked; the halt is never entered (\<^verbatim>\<open>mpu_begin\<close>
  returns 1); every previous phase is a two-bit value; the output is whole frames.
\<close>

definition sys_inv :: "byte_order \<Rightarrow> sys \<Rightarrow> bool" where
  "sys_inv e s = ((pc s = Boot \<longrightarrow> tx_out (ser s) = [] \<and> \<not> exti_enabled s)
            \<and> pc s \<noteq> Halted
            \<and> (\<forall>w. prev w (glob s) < 4)
            \<and> frames_ok e s)"

section \<open>The quadrature decoder: proofs\<close>


lemma u8_lt4_cases: 
  assumes "(w::u8) < 4" shows "w = 0 \<or> w = 1 \<or> w = 2 \<or> w = 3"
proof -
  from assms have "unat w < 4" by (simp add: word_less_nat_alt)
  then have "unat w = 0 \<or> unat w = 1 \<or> unat w = 2 \<or> unat w = 3" by arith
  moreover have "w = word_of_nat (unat w)" by simp
  ultimately have "w = word_of_nat 0 \<or> w = word_of_nat 1 \<or> w = word_of_nat 2 \<or> w = word_of_nat 3"
    by metis
  then show ?thesis by simp
qed

lemma qidx_vals:
  "qidx 0 0 = 0" "qidx 0 1 = 1" "qidx 0 2 = 2" "qidx 0 3 = 3"
  "qidx 1 0 = 4" "qidx 1 1 = 5" "qidx 1 2 = 6" "qidx 1 3 = 7"
  "qidx 2 0 = 8" "qidx 2 1 = 9" "qidx 2 2 = 10" "qidx 2 3 = 11"
  "qidx 3 0 = 12" "qidx 3 1 = 13" "qidx 3 2 = 14" "qidx 3 3 = 15"
  by (simp_all add: qidx_def)

lemma rd_lt4: "rd w ia ib < 4"
  by (cases w) (simp_all add: rdFL_def rdFR_def rdBL_def rdBR_def)


lemma qdelta_table:
  assumes "p < 4" "n < 4"
  shows "qidx p n < length qLUT"
    and "qdelta p n = (if n = fwd_next p then 1 else if n = rev_next p then - 1 else 0)"
    and "(scast (qLUT ! qidx p n) :: i32) = (if n = fwd_next p then 1 else if n = rev_next p then - 1 else 0)"
  using u8_lt4_cases [OF assms(1)] u8_lt4_cases [OF assms(2)]
  by (elim disjE; simp add: qidx_vals qLUT_def fwd_next_def rev_next_def qdelta_def)+

lemma step_kinds:
  assumes "p < 4" "n < 4"
  shows "one_step p n \<longleftrightarrow> (n = fwd_next p \<or> n = rev_next p)"
    and "diagonal p n \<longleftrightarrow> (n \<noteq> p \<and> n \<noteq> fwd_next p \<and> n \<noteq> rev_next p)"
    and "rev_next (fwd_next p) = p" and "fwd_next (rev_next p) = p"
    and "fwd_next p < 4" and "rev_next p < 4" and "fwd_next p \<noteq> p" and "rev_next p \<noteq> p"
   and "fwd_next p \<noteq> rev_next p"
  using u8_lt4_cases [OF assms(1)] u8_lt4_cases [OF assms(2)]
  by (elim disjE; simp add: fwd_next_def rev_next_def one_step_def diagonal_def)+

lemma isr_eq:
  assumes "prev w g < 4"
  shows "isr w ia ib g = Inr (case w of
     FL \<Rightarrow> g\<lparr>encFL := encFL g + scast (qLUT ! qidx (prevFL g) (rdFL ia ib)), prevFL := rdFL ia ib\<rparr>
   | FR \<Rightarrow> g\<lparr>encFR := encFR g + scast (qLUT ! qidx (prevFR g) (rdFR ia ib)), prevFR := rdFR ia ib\<rparr>
   | BL \<Rightarrow> g\<lparr>encBL := encBL g + scast (qLUT ! qidx (prevBL g) (rdBL ia ib)), prevBL := rdBL ia ib\<rparr>
   | BR \<Rightarrow> g\<lparr>encBR := encBR g + scast (qLUT ! qidx (prevBR g) (rdBR ia ib)), prevBR := rdBR ia ib\<rparr>)"
  using assms qdelta_table(1) [of "prev w g" "rd w ia ib"] rd_lt4 [of w ia ib]
  by (cases w) (simp_all add: isrFL_def isrFR_def isrBL_def isrBR_def Let_def)

lemma isr_step:
  assumes "prev w g < 4"
  shows "\<exists>g'. isr w ia ib g = Inr g' \<and> prev w g' = rd w ia ib
     \<and> enc w g' = enc w g + scast (qLUT ! qidx (prev w g) (rd w ia ib))"
  using isr_eq [OF assms, of ia ib] by (cases w) simp_all


lemma run_isr_append:
  "run_isr w (xs @ ys) g = (case run_isr w xs g of Inl f \<Rightarrow> Inl f | Inr g' \<Rightarrow> run_isr w ys g')"
  by (induction xs arbitrary: g) (auto split: sum.splits)

lemma run_isr_fwd:
  assumes "prev w g < 4" "map (\<lambda>x. rd w (fst x) (snd x)) xs = fwd_seq (prev w g) n"
  shows "\<exists>g'. run_isr w xs g = Inr g' \<and> enc w g' = enc w g + of_nat n
            \<and> prev w g' = (fwd_next ^^ n) (prev w g)"
  using assms
proof (induction n arbitrary: xs g)
  case 0
  then show ?case by simp
next
  case (Suc n)
  from Suc.prems(2) obtain x xs' where xs: "xs = x # xs'"
    and hd: "rd w (fst x) (snd x) = fwd_next (prev w g)"
    and tl: "map (\<lambda>x. rd w (fst x) (snd x)) xs' = fwd_seq (fwd_next (prev w g)) n"
    by (cases xs) auto
  from isr_step [OF Suc.prems(1), of "fst x" "snd x"] obtain g1 where
    g1: "isr w (fst x) (snd x) g = Inr g1" "prev w g1 = rd w (fst x) (snd x)"
        "enc w g1 = enc w g + scast (qLUT ! qidx (prev w g) (rd w (fst x) (snd x)))"
    by blast
  have lt: "fwd_next (prev w g) < 4" using step_kinds(5) [OF Suc.prems(1) Suc.prems(1)] .
  have d: "(scast (qLUT ! qidx (prev w g) (fwd_next (prev w g))) :: i32) = 1"
    using qdelta_table(3) [OF Suc.prems(1) lt] by simp
  have p1: "prev w g1 < 4" using g1(2) hd lt by simp
  have tl': "map (\<lambda>x. rd w (fst x) (snd x)) xs' = fwd_seq (prev w g1) n"
    using tl g1(2) hd by simp
  from Suc.IH [OF p1 tl'] obtain g' where
    g': "run_isr w xs' g1 = Inr g'" "enc w g' = enc w g1 + of_nat n"
        "prev w g' = (fwd_next ^^ n) (prev w g1)"
    by blast
  have "run_isr w xs g = Inr g'" using xs g1(1) g'(1) by simp
  moreover have "enc w g' = enc w g + of_nat (Suc n)" using g'(2) g1(3) hd d by simp
  moreover have "prev w g' = (fwd_next ^^ Suc n) (prev w g)"
    using g'(3) g1(2) hd by (simp add: funpow_swap1)
  ultimately show ?case by blast
qed

lemma run_isr_rev:
  assumes "prev w g < 4" "map (\<lambda>x. rd w (fst x) (snd x)) xs = rev_seq (prev w g) n"
  shows "\<exists>g'. run_isr w xs g = Inr g' \<and> enc w g' = enc w g - of_nat n
            \<and> prev w g' = (rev_next ^^ n) (prev w g)"
  using assms
proof (induction n arbitrary: xs g)
  case 0
  then show ?case by simp
next
  case (Suc n)
  from Suc.prems(2) obtain x xs' where xs: "xs = x # xs'"
    and hd: "rd w (fst x) (snd x) = rev_next (prev w g)"
    and tl: "map (\<lambda>x. rd w (fst x) (snd x)) xs' = rev_seq (rev_next (prev w g)) n"
    by (cases xs) auto
  from isr_step [OF Suc.prems(1), of "fst x" "snd x"] obtain g1 where
    g1: "isr w (fst x) (snd x) g = Inr g1" "prev w g1 = rd w (fst x) (snd x)"
        "enc w g1 = enc w g + scast (qLUT ! qidx (prev w g) (rd w (fst x) (snd x)))"
    by blast
  have lt: "rev_next (prev w g) < 4" using step_kinds(6) [OF Suc.prems(1) Suc.prems(1)] .
  have ne: "rev_next (prev w g) \<noteq> fwd_next (prev w g)"
    using step_kinds(9) [OF Suc.prems(1) Suc.prems(1)] by simp
  have d: "(scast (qLUT ! qidx (prev w g) (rev_next (prev w g))) :: i32) = - 1"
    using qdelta_table(3) [OF Suc.prems(1) lt] ne by simp
  have p1: "prev w g1 < 4" using g1(2) hd lt by simp
  have tl': "map (\<lambda>x. rd w (fst x) (snd x)) xs' = rev_seq (prev w g1) n"
    using tl g1(2) hd by simp
  from Suc.IH [OF p1 tl'] obtain g' where
    g': "run_isr w xs' g1 = Inr g'" "enc w g' = enc w g1 - of_nat n"
        "prev w g' = (rev_next ^^ n) (prev w g1)"
    by blast
  have "run_isr w xs g = Inr g'" using xs g1(1) g'(1) by simp
  moreover have "enc w g' = enc w g - of_nat (Suc n)" using g'(2) g1(3) hd d by simp
  moreover have "prev w g' = (rev_next ^^ Suc n) (prev w g)"
    using g'(3) g1(2) hd by (simp add: funpow_swap1)
  ultimately show ?case by blast
qed

lemma fwd_pow_lt4: "p < 4 \<Longrightarrow> (fwd_next ^^ n) p < 4"
  by (induction n) (simp_all add: step_kinds(5))

lemma rev_fwd_pow: "p < 4 \<Longrightarrow> (rev_next ^^ n) ((fwd_next ^^ n) p) = p"
proof (induction n arbitrary: p)
  case 0
  then show ?case by simp
next
  case (Suc n)
  have "(rev_next ^^ Suc n) ((fwd_next ^^ Suc n) p)
      = (rev_next ^^ n) (rev_next (fwd_next ((fwd_next ^^ n) p)))"
    by (simp add: funpow_swap1)
  also have "\<dots> = (rev_next ^^ n) ((fwd_next ^^ n) p)"
    using step_kinds(3) [OF fwd_pow_lt4 [OF Suc.prems] fwd_pow_lt4 [OF Suc.prems]] by simp
  finally show ?case using Suc.IH [OF Suc.prems] by simp
qed

text \<open>
  Claim C4. For every wheel, every number \<open>n\<close> and every state whose previous phase is a
  two-bit value: when the handler of the wheel runs over edges whose pin readings are
  \<open>n\<close> single steps forward followed by \<open>n\<close> single steps backward, every call
  returns, and the counter of the wheel and its previous phase end where they started
  (the counter wraps at 32 bits on the way).
\<close>

theorem forward_then_reverse_returns:
  assumes "prev w g < 4"
      and "map (\<lambda>x. rd w (fst x) (snd x)) xs
             = fwd_seq (prev w g) n @ rev_seq ((fwd_next ^^ n) (prev w g)) n"
  shows "\<exists>g'. run_isr w xs g = Inr g' \<and> enc w g' = enc w g \<and> prev w g' = prev w g"
proof -
  from assms(2) obtain ys zs where xs: "xs = ys @ zs"
    and ys: "map (\<lambda>x. rd w (fst x) (snd x)) ys = fwd_seq (prev w g) n"
    and zs: "map (\<lambda>x. rd w (fst x) (snd x)) zs = rev_seq ((fwd_next ^^ n) (prev w g)) n"
    by (auto simp: map_eq_append_conv)
  from run_isr_fwd [OF assms(1) ys] obtain g1 where
    g1: "run_isr w ys g = Inr g1" "enc w g1 = enc w g + of_nat n"
        "prev w g1 = (fwd_next ^^ n) (prev w g)"
    by blast
  have p1: "prev w g1 < 4" using g1(3) fwd_pow_lt4 [OF assms(1)] by simp
  have zs': "map (\<lambda>x. rd w (fst x) (snd x)) zs = rev_seq (prev w g1) n"
    using zs g1(3) by simp
  from run_isr_rev [OF p1 zs'] obtain g' where
    g': "run_isr w zs g1 = Inr g'" "enc w g' = enc w g1 - of_nat n"
        "prev w g' = (rev_next ^^ n) (prev w g1)"
    by blast
  have "run_isr w xs g = Inr g'" using xs g1(1) g'(1) by (simp add: run_isr_append)
  moreover have "enc w g' = enc w g" using g'(2) g1(2) by simp
  moreover have "prev w g' = prev w g" using g'(3) g1(3) rev_fwd_pow [OF assms(1)] by simp
  ultimately show ?thesis by blast
qed


theorem forward_then_reverse_returns_witness:
  "prev FL globals0 < 4
   \<and> map (\<lambda>x. rd FL (fst x) (snd x)) edges_example
       = fwd_seq (prev FL globals0) (Suc (Suc 0))
         @ rev_seq ((fwd_next ^^ Suc (Suc 0)) (prev FL globals0)) (Suc (Suc 0))
   \<and> (\<exists>g'. run_isr FL edges_example globals0 = Inr g'
         \<and> enc FL g' = enc FL globals0 \<and> prev FL g' = prev FL globals0)"
proof -
  have a: "prev FL globals0 < 4" by (simp add: globals0_def)
  have b: "map (\<lambda>x. rd FL (fst x) (snd x)) edges_example
       = fwd_seq (prev FL globals0) (Suc (Suc 0))
         @ rev_seq ((fwd_next ^^ Suc (Suc 0)) (prev FL globals0)) (Suc (Suc 0))"
    by (simp add: edges_example_def globals0_def rdFL_def READ_PIN_def BIT_def
        ENC_FLA_PIN_def ENC_FLB_PIN_def fwd_next_def rev_next_def)
  from forward_then_reverse_returns [OF a b] a b show ?thesis by blast
qed

text \<open>
  Claim C3. For every pair of two-bit phases \<open>p\<close> (previous) and \<open>n\<close> (new), the
  index \<open>(p << 2) | n\<close> is inside the table; the entry is \<open>+1\<close> when \<open>n\<close> is the next
  phase of the cycle 0, 2, 3, 1, 0 (which closes after four steps), \<open>-1\<close> when it is the
  next phase of the reverse cycle, \<open>0\<close> when \<open>n = p\<close> and \<open>0\<close> when both channels
  changed. The one-step transitions are exactly those along the two cycles, eight of
  the sixteen pairs; four pairs are diagonal. A handler call of any wheel in a state
  with previous phase \<open>p\<close> whose pin reads give \<open>n\<close> returns, adds that entry to the
  wheel's counter and stores \<open>n\<close> as the previous phase.
\<close>

theorem qLUT_transitions:
  assumes "p < 4" and "n < 4"
  shows "qidx p n < length qLUT
    \<and> (n = fwd_next p \<longrightarrow> qdelta p n = 1)
    \<and> (n = rev_next p \<longrightarrow> qdelta p n = - 1)
    \<and> (n = p \<longrightarrow> qdelta p n = 0)
    \<and> (diagonal p n \<longrightarrow> qdelta p n = 0)
    \<and> (one_step p n \<longleftrightarrow> n = fwd_next p \<or> n = rev_next p)
    \<and> (diagonal p n \<longleftrightarrow> n \<noteq> p \<and> \<not> one_step p n)
    \<and> fwd_next (fwd_next (fwd_next (fwd_next p))) = p
    \<and> rev_next (fwd_next p) = p
    \<and> length (filter (\<lambda>x. one_step (fst x) (snd x)) (List.product [0, 1, 2, 3] [0, 1, 2, 3])) = 8
    \<and> length (filter (\<lambda>x. diagonal (fst x) (snd x)) (List.product [0, 1, 2, 3] [0, 1, 2, 3])) = 4
    \<and> (\<forall>w ia ib g. prev w g = p \<and> rd w ia ib = n \<longrightarrow>
          (\<exists>g'. isr w ia ib g = Inr g' \<and> enc w g' = enc w g + word_of_int (qdelta p n)
                \<and> prev w g' = n))"
proof -
  note t = qdelta_table [OF assms] 
  note k = step_kinds [OF assms]
  have c4: "fwd_next (fwd_next (fwd_next (fwd_next p))) = p"
    using u8_lt4_cases [OF assms(1)] by (elim disjE; simp add: fwd_next_def)
  have cnt1: "length (filter (\<lambda>x. one_step (fst x) (snd x)) (List.product [0, 1, 2, 3] [0, 1, 2, 3])) = 8"
    by (simp add: one_step_def)
  have cnt2: "length (filter (\<lambda>x. diagonal (fst x) (snd x)) (List.product [0, 1, 2, 3] [0, 1, 2, 3])) = 4"
    by (simp add: diagonal_def)
  have sc: "(scast (qLUT ! qidx p n) :: i32) = word_of_int (qdelta p n)"
    using t(2,3) by simp
  have hand: "\<forall>w ia ib g. prev w g = p \<and> rd w ia ib = n \<longrightarrow>
          (\<exists>g'. isr w ia ib g = Inr g' \<and> enc w g' = enc w g + word_of_int (qdelta p n)
                \<and> prev w g' = n)"
  proof (intro allI impI)
    fix w ia ib g
    assume h: "prev w g = p \<and> rd w ia ib = n"
    then have "prev w g < 4" using assms(1) by simp
    from isr_step [OF this, of ia ib] h sc
    show "\<exists>g'. isr w ia ib g = Inr g' \<and> enc w g' = enc w g + word_of_int (qdelta p n)
                \<and> prev w g' = n" by auto
  qed
  have d0: "n = p \<longrightarrow> qdelta p n = 0" using t(2) k(7,8) by auto
  have dd: "diagonal p n \<longrightarrow> qdelta p n = 0" using t(2) k(2) by auto
  have dk: "diagonal p n \<longleftrightarrow> n \<noteq> p \<and> \<not> one_step p n" using k(1,2) by auto
  have f1: "n = fwd_next p \<longrightarrow> qdelta p n = 1" using t(2) by auto
  have r1: "n = rev_next p \<longrightarrow> qdelta p n = - 1" using t(2) k(9) by auto
  show ?thesis using t(1) f1 r1 d0 dd k(1) dk c4 k(3) cnt1 cnt2 hand by blast
qed

theorem qLUT_transitions_witness:
  "(0::u8) < 4 \<and> (2::u8) < 4 \<and> (2::u8) = fwd_next 0 \<and> qdelta 0 2 = 1 \<and> one_step 0 2
   \<and> prev FL globals0 = 0 \<and> rd FL 0x100 0x100 = 2
   \<and> (\<exists>g'. isr FL 0x100 0x100 globals0 = Inr g'
         \<and> enc FL g' = enc FL globals0 + word_of_int (qdelta 0 2) \<and> prev FL g' = 2)"
proof -
  have a: "(0::u8) < 4" "(2::u8) < 4" by simp_all
  have f: "(2::u8) = fwd_next 0" by (simp add: fwd_next_def)
  have p: "prev FL globals0 = 0" by (simp add: globals0_def)
  have r: "rd FL 0x100 0x100 = 2"
    by (simp add: rdFL_def READ_PIN_def BIT_def ENC_FLA_PIN_def ENC_FLB_PIN_def)
  from qLUT_transitions [OF a] f p r a show ?thesis by blast
qed

section \<open>The frame: proofs\<close>
lemma length_le_bytes32 [simp]: "length (le_bytes32 w) = 4" by (simp add: le_bytes32_def)
lemma length_le_bytes16 [simp]: "length (le_bytes16 w) = 2" by (simp add: le_bytes16_def)
lemma length_obj_bytes32 [simp]: "length (obj_bytes32 e w) = 4"
  by (cases e) (simp_all add: obj_bytes32_def)
lemma length_obj_bytes16 [simp]: "length (obj_bytes16 e w) = 2"
  by (cases e) (simp_all add: obj_bytes16_def)

lemma length_Payload_bytes: "length (Payload_bytes e p) = 46"
  by (simp add: Payload_bytes_def)

lemma sizeof_Payload_46: "sizeof_Payload = 46" by (simp add: sizeof_Payload_def)

lemma checksum_loop_eq:
  "i \<le> n \<Longrightarrow> n \<le> length p \<Longrightarrow>
   checksum_loop p n i c = Inr (fold (\<lambda>b a. a XOR b) (drop i (take n p)) c)"
proof (induction "n - i" arbitrary: i c)
  case 0
  then show ?case by (simp add: checksum_loop.simps)
next
  case (Suc k)
  then have lt: "i < n" "i < length p" by arith+
  have d: "drop i (take n p) = p ! i # drop (Suc i) (take n p)"
    using lt by (simp add: Cons_nth_drop_Suc [symmetric])
  have "checksum_loop p n i c = checksum_loop p n (Suc i) (c XOR p ! i)"
    using lt by (subst checksum_loop.simps) simp
  also have "\<dots> = Inr (fold (\<lambda>b a. a XOR b) (drop (Suc i) (take n p)) (c XOR p ! i))"
    using Suc.hyps(1) [of "Suc i" "c XOR p ! i"] Suc.hyps(2) Suc.prems by simp
  finally show ?case using d by simp
qed

lemma fold_xor_acc: "fold (\<lambda>b a. a XOR b) bs (c::u8) = c XOR foldr (XOR) bs 0"
  by (induction bs arbitrary: c) (simp_all add: ac_simps)

lemma checksum_xor_eq:
  "length p < 65536 \<Longrightarrow> checksum_xor p (of_nat (length p)) = Inr (xor_bytes p)"
  by (simp add: checksum_xor_def checksum_loop_eq fold_xor_acc xor_bytes_def unat_of_nat take_bit_nat_eq_self)



lemma uart_send_byte_out:
  "uart_send_byte txe b u = Inr u' \<Longrightarrow> tx_out u' = tx_out u @ [b]"
  by (auto simp: uart_send_byte_def split: option.splits)

lemma send_loop_out:
  "i \<le> n \<Longrightarrow> n \<le> length bs \<Longrightarrow> send_loop txe bs n i u = Inr u' \<Longrightarrow>
   tx_out u' = tx_out u @ drop i (take n bs)"
proof (induction "n - i" arbitrary: i u)
  case 0
  then show ?case by (simp add: send_loop.simps)
next
  case (Suc k)
  then have lt: "i < n" "i < length bs" by arith+
  have d: "drop i (take n bs) = bs ! i # drop (Suc i) (take n bs)"
    using lt by (simp add: Cons_nth_drop_Suc [symmetric])
  from Suc.prems(3) lt obtain u1 where
    u1: "uart_send_byte txe (bs ! i) u = Inr u1" "send_loop txe bs n (Suc i) u1 = Inr u'"
    by (subst (asm) send_loop.simps) (auto split: sum.splits)
  have "tx_out u' = tx_out u1 @ drop (Suc i) (take n bs)"
    using Suc.hyps(1) [of "Suc i" u1] Suc.hyps(2) Suc.prems(1,2) u1(2) lt by simp
  then show ?case using uart_send_byte_out [OF u1(1)] d by simp
qed

lemma send_payload_out:
  assumes "send_payload e txe p u = Inr u'"
  shows "tx_out u' = tx_out u @ frame_bytes e p"
proof -
  have cs: "checksum_xor (Payload_bytes e p) (of_nat sizeof_Payload) = Inr (xor_bytes (Payload_bytes e p))"
    using checksum_xor_eq [of "Payload_bytes e p"] by (simp add: length_Payload_bytes sizeof_Payload_46)
  from assms obtain u1 u2 u3 where
    s: "uart_send_byte txe 0xAA u = Inr u1" "uart_send_byte txe 0x55 u1 = Inr u2"
       "send_loop txe (Payload_bytes e p) sizeof_Payload 0 u2 = Inr u3"
       "uart_send_byte txe (xor_bytes (Payload_bytes e p)) u3 = Inr u'"
    unfolding send_payload_def cs by (auto split: sum.splits)
  have "tx_out u3 = tx_out u2 @ Payload_bytes e p"
    using send_loop_out [OF _ _ s(3)] by (simp add: length_Payload_bytes sizeof_Payload_46)
  then show ?thesis
    using uart_send_byte_out [OF s(1)] uart_send_byte_out [OF s(2)] uart_send_byte_out [OF s(4)]
    by (simp add: frame_bytes_def)
qed

lemma length_frame_bytes: "length (frame_bytes e p) = 49"
  by (simp add: frame_bytes_def length_Payload_bytes)

lemma sent_append: "tx_out u' = tx_out u @ f \<Longrightarrow> sent u u' = f"
  by (simp add: sent_def)

text \<open>
  Claim C1. Whenever \<^verbatim>\<open>send_payload\<close> returns, on a machine of either byte order, it
  has appended 49 bytes to what the UART had sent; bytes 2 to 47 of them are the 46
  bytes of the payload structure, and byte 48 is the XOR of exactly those 46 bytes
  (the two header bytes are not part of it).
\<close>

theorem frame_checksum:
  assumes "send_payload e txe p u = Inr u'"
  shows "tx_out u' = tx_out u @ sent u u'
       \<and> length (sent u u') = 49
       \<and> take 46 (drop 2 (sent u u')) = Payload_bytes e p
       \<and> sent u u' ! 48 = xor_bytes (take 46 (drop 2 (sent u u')))"
proof -
  have f: "sent u u' = frame_bytes e p"
    using send_payload_out [OF assms] by (rule sent_append)
  have a: "take 46 (drop 2 (frame_bytes e p)) = Payload_bytes e p"
    by (simp add: frame_bytes_def length_Payload_bytes)
  have b: "frame_bytes e p ! 48 = xor_bytes (Payload_bytes e p)"
    by (simp add: frame_bytes_def nth_append length_Payload_bytes)
  show ?thesis using send_payload_out [OF assms] f a b length_frame_bytes by simp
qed

text \<open>If the transmitter always becomes ready again, every send returns.\<close>

lemma uart_wait_Some:
  assumes "k \<le> j" "txe j"
  shows "\<exists>m. uart_wait txe k = Some m"
  using assms
proof (induction "j - k" arbitrary: k)
  case 0
  then show ?case by (subst uart_wait.simps) simp
next
  case (Suc d)
  show ?case
  proof (cases "txe k")
    case True
    then show ?thesis by (subst uart_wait.simps) simp
  next
    case False
    have "\<exists>m. uart_wait txe (Suc k) = Some m"
      using Suc.hyps(1) [of "Suc k"] Suc.hyps(2) Suc.prems by simp
    then show ?thesis using False by (subst uart_wait.simps) simp
  qed
qed

lemma uart_send_byte_returns:
  assumes "\<forall>k. \<exists>j\<ge>k. txe j"
  shows "\<exists>u'. uart_send_byte txe b u = Inr u'"
proof -
  from assms obtain j where j: "tx_polls u \<le> j" "txe j" by blast
  from uart_wait_Some [of "tx_polls u" j txe] j show ?thesis by (auto simp: uart_send_byte_def)
qed

lemma send_loop_returns:
  assumes "\<forall>k. \<exists>j\<ge>k. txe j"
  shows "i \<le> n \<Longrightarrow> n \<le> length bs \<Longrightarrow> \<exists>u'. send_loop txe bs n i u = Inr u'"
proof (induction "n - i" arbitrary: i u)
  case 0
  then show ?case by (simp add: send_loop.simps)
next
  case (Suc k)
  then have lt: "i < n" "i < length bs" by arith+
  from uart_send_byte_returns [OF assms] obtain u1 where
    u1: "uart_send_byte txe (bs ! i) u = Inr u1" by blast
  have "\<exists>u'. send_loop txe bs n (Suc i) u1 = Inr u'"
    using Suc.hyps(1) [of "Suc i" u1] Suc.hyps(2) Suc.prems lt by simp
  then show ?case using lt u1 by (subst send_loop.simps) simp
qed

lemma send_payload_returns:
  assumes "\<forall>k. \<exists>j\<ge>k. txe j"
  shows "\<exists>u'. send_payload e txe p u = Inr u'"
proof -
  have cs: "checksum_xor (Payload_bytes e p) (of_nat sizeof_Payload) = Inr (xor_bytes (Payload_bytes e p))"
    using checksum_xor_eq [of "Payload_bytes e p"] by (simp add: length_Payload_bytes sizeof_Payload_46)
  from uart_send_byte_returns [OF assms] obtain u1 where u1: "uart_send_byte txe 0xAA u = Inr u1" by blast
  from uart_send_byte_returns [OF assms] obtain u2 where u2: "uart_send_byte txe 0x55 u1 = Inr u2" by blast
  from send_loop_returns [OF assms, of 0 sizeof_Payload "Payload_bytes e p" u2] obtain u3 where
    u3: "send_loop txe (Payload_bytes e p) sizeof_Payload 0 u2 = Inr u3"
    by (auto simp: length_Payload_bytes sizeof_Payload_46)
  from uart_send_byte_returns [OF assms] obtain u4 where
    u4: "uart_send_byte txe (xor_bytes (Payload_bytes e p)) u3 = Inr u4" by blast
  show ?thesis unfolding send_payload_def cs using u1 u2 u3 u4 by simp
qed



lemma le32_roundtrip:
  "(ucast (ucast w :: u8) :: u32) OR push_bit 8 (ucast (ucast (drop_bit 8 w) :: u8))
     OR push_bit 16 (ucast (ucast (drop_bit 16 w) :: u8))
     OR push_bit 24 (ucast (ucast (drop_bit 24 w) :: u8)) = (w :: u32)"
proof (rule bit_word_eqI)
  fix n :: nat
  assume "n < LENGTH(32)"
  then have n: "n < 32" by simp
  consider "n < 8" | "8 \<le> n" "n < 16" | "16 \<le> n" "n < 24" | "24 \<le> n" by arith
  then show "bit ((ucast (ucast w :: u8) :: u32) OR push_bit 8 (ucast (ucast (drop_bit 8 w) :: u8))
     OR push_bit 16 (ucast (ucast (drop_bit 16 w) :: u8))
     OR push_bit 24 (ucast (ucast (drop_bit 24 w) :: u8))) n = bit w n"
    using n by cases (auto simp: bit_simps)
qed

lemma le16_roundtrip:
  "(ucast (ucast w :: u8) :: u16) OR push_bit 8 (ucast (ucast (drop_bit 8 w) :: u8)) = (w :: u16)"
  by (rule bit_word_eqI) (auto simp: bit_simps)

lemma parse_frame_le: "parse_frame (frame_bytes LittleEndian p) = p"
  by (simp add: parse_frame_def frame_bytes_def Payload_bytes_def obj_bytes32_def obj_bytes16_def
      le_bytes32_def le_bytes16_def le_word32_def le_word16_def le32_roundtrip le16_roundtrip)


lemma txe_always_ready: "\<forall>k. \<exists>j\<ge>k. txe_always j"
  by (auto simp: txe_always_def)

theorem frame_checksum_witness:
  "\<exists>u'. send_payload LittleEndian txe_always payload_example uart0 = Inr u'
     \<and> tx_out u' = tx_out uart0 @ sent uart0 u'
     \<and> length (sent uart0 u') = 49
     \<and> take 46 (drop 2 (sent uart0 u')) = Payload_bytes LittleEndian payload_example
     \<and> sent uart0 u' ! 48 = xor_bytes (take 46 (drop 2 (sent uart0 u')))"
proof -
  from send_payload_returns [OF txe_always_ready] obtain u' where
    h: "send_payload LittleEndian txe_always payload_example uart0 = Inr u'" by blast
  from frame_checksum [OF h] h show ?thesis by blast
qed

text \<open>
  Claim C2, amended. Every frame \<^verbatim>\<open>send_payload\<close> transmits is exactly 49 bytes: the
  header \<open>0xAA 0x55\<close>, then the 46 bytes of the packed payload structure as they lie
  in memory (the fields \<^verbatim>\<open>t_ms\<close>, \<^verbatim>\<open>ticksFL\<close>, \<^verbatim>\<open>ticksFR\<close>, \<^verbatim>\<open>ticksBL\<close>, \<^verbatim>\<open>ticksBR\<close>,
  \<^verbatim>\<open>ax\<close>, \<^verbatim>\<open>ay\<close>, \<^verbatim>\<open>az\<close>, \<^verbatim>\<open>gx\<close>, \<^verbatim>\<open>gy\<close>, \<^verbatim>\<open>gz\<close>, \<^verbatim>\<open>flags\<close> in this order without padding, each
  in the byte order of the machine), then the checksum byte. No field is converted:
  on the little-endian target the frame parses back, field by field at the offsets of
  the wire format, to the payload.
\<close>

theorem frame_layout:
  assumes "send_payload e txe p u = Inr u'"
  shows "length (sent u u') = 49
       \<and> sent u u' ! 0 = 0xAA \<and> sent u u' ! 1 = 0x55
       \<and> take 46 (drop 2 (sent u u')) = Payload_bytes e p
       \<and> length (Payload_bytes e p) = 46
       \<and> sent u u' ! 48 = xor_bytes (Payload_bytes e p)
       \<and> (e = LittleEndian \<longrightarrow> parse_frame (sent u u') = p)"
proof -
  have f: "sent u u' = frame_bytes e p"
    using send_payload_out [OF assms] by (rule sent_append)
  have a: "take 46 (drop 2 (frame_bytes e p)) = Payload_bytes e p"
    by (simp add: frame_bytes_def length_Payload_bytes)
  have b: "frame_bytes e p ! 48 = xor_bytes (Payload_bytes e p)"
    by (simp add: frame_bytes_def nth_append length_Payload_bytes)
  have h: "frame_bytes e p ! 0 = 0xAA" "frame_bytes e p ! 1 = 0x55"
    by (simp_all add: frame_bytes_def)
  show ?thesis using f a b h length_frame_bytes length_Payload_bytes parse_frame_le by simp
qed

theorem frame_layout_witness:
  "\<exists>u'. send_payload LittleEndian txe_always payload_example uart0 = Inr u'
     \<and> length (sent uart0 u') = 49
     \<and> sent uart0 u' ! 0 = 0xAA \<and> sent uart0 u' ! 1 = 0x55
     \<and> take 46 (drop 2 (sent uart0 u')) = Payload_bytes LittleEndian payload_example
     \<and> parse_frame (sent uart0 u') = payload_example"
proof -
  from send_payload_returns [OF txe_always_ready] obtain u' where
    h: "send_payload LittleEndian txe_always payload_example uart0 = Inr u'" by blast
  from frame_layout [OF h] h show ?thesis by blast
qed

text \<open>
  The claim as stated promises the little-endian wire format whatever the byte order
  of the host. The code copies the bytes of the structure unchanged: on a big-endian
  host the field \<^verbatim>\<open>t_ms = 1\<close> goes out as \<open>00 00 00 01\<close>, and the frame does not parse
  back to the payload.
\<close>

theorem big_endian_frame_differs:
  "\<exists>u'. send_payload BigEndian txe_always payload_example uart0 = Inr u'
     \<and> length (sent uart0 u') = 49
     \<and> take 4 (drop 2 (sent uart0 u')) = [0, 0, 0, 1]
     \<and> t_ms payload_example = 1
     \<and> parse_frame (sent uart0 u') \<noteq> payload_example"
proof -
  from send_payload_returns [OF txe_always_ready] obtain u' where
    h: "send_payload BigEndian txe_always payload_example uart0 = Inr u'" by blast
  have f: "sent uart0 u' = frame_bytes BigEndian payload_example"
    using send_payload_out [OF h] by (rule sent_append)
  have b: "take 4 (drop 2 (frame_bytes BigEndian payload_example)) = [0, 0, 0, 1]"
    by (simp add: frame_bytes_def Payload_bytes_def obj_bytes32_def le_bytes32_def
        payload_example_def)
  have "t_ms (parse_frame (frame_bytes BigEndian payload_example)) = 0x01000000"
    by (simp add: parse_frame_def frame_bytes_def Payload_bytes_def obj_bytes32_def
        le_bytes32_def le_word32_def payload_example_def)
  moreover have t: "t_ms payload_example = 1" by (simp add: payload_example_def)
  ultimately have "parse_frame (frame_bytes BigEndian payload_example) \<noteq> payload_example"
    by auto
  then show ?thesis using h f b t length_frame_bytes by auto
qed

section \<open>The sensor bus: proofs\<close>

lemma i2c_reads_simps [simp]:
  "i2c_reads (i2c_poll env s) = i2c_reads s"
  "i2c_reads (i2c_log x s) = i2c_reads s"
  "i2c_reads (i2c_start env s) = i2c_reads s"
  "i2c_reads (i2c_stop s) = i2c_reads s"
  "i2c_reads (i2c_write_addr env a s) = i2c_reads s"
  "i2c_reads (i2c_write_data env d s) = i2c_reads s"
  by (simp_all add: i2c_poll_def i2c_log_def i2c_start_def i2c_stop_def i2c_write_addr_def
      i2c_write_data_def)

lemma i2c_read_byte [simp]:
  "fst (i2c_read_ack env s) = dr_read env (i2c_reads s)"
  "i2c_reads (snd (i2c_read_ack env s)) = Suc (i2c_reads s)"
  "fst (i2c_read_nack env s) = dr_read env (i2c_reads s)"
  "i2c_reads (snd (i2c_read_nack env s)) = Suc (i2c_reads s)"
  by (simp_all add: i2c_read_ack_def i2c_read_nack_def i2c_take_def)

lemma i2c_burst_loop_ok:
  "i \<le> n \<Longrightarrow> n \<le> length dst \<Longrightarrow>
   \<exists>buf s'. i2c_burst_loop env n i dst s = Inr (buf, s') \<and> length buf = length dst
     \<and> i2c_reads s' = i2c_reads s + (n - i)
     \<and> (\<forall>j. i \<le> j \<and> j < n \<longrightarrow> buf ! j = dr_read env (i2c_reads s + (j - i)))
     \<and> (\<forall>j. j < i \<or> n \<le> j \<longrightarrow> buf ! j = dst ! j)"
proof (induction "n - i" arbitrary: i dst s)
  case 0
  then have "i = n" by simp
  then show ?case by (subst i2c_burst_loop.simps) auto
next
  case (Suc k)
  then have lt: "i < n" "i < length dst" by arith+
  define r where "r = (if int i = int n - 1 then i2c_read_nack env s else i2c_read_ack env s)"
  have r: "fst r = dr_read env (i2c_reads s)" "i2c_reads (snd r) = Suc (i2c_reads s)"
    by (simp_all add: r_def)
  have unf: "i2c_burst_loop env n i dst s = i2c_burst_loop env n (Suc i) (dst[i := fst r]) (snd r)"
    using lt by (subst i2c_burst_loop.simps) (simp add: r_def Let_def)
  have k: "k = n - Suc i" using Suc.hyps(2) by simp
  have le1: "Suc i \<le> n" using lt by simp
  have le2: "n \<le> length (dst[i := fst r])" using Suc.prems by simp
  from Suc.hyps(1) [OF k le1 le2, of "snd r"]
  obtain buf s' where
    ih: "i2c_burst_loop env n (Suc i) (dst[i := fst r]) (snd r) = Inr (buf, s')"
        "length buf = length dst" "i2c_reads s' = i2c_reads (snd r) + (n - Suc i)"
        "\<forall>j. Suc i \<le> j \<and> j < n \<longrightarrow> buf ! j = dr_read env (i2c_reads (snd r) + (j - Suc i))"
        "\<forall>j. j < Suc i \<or> n \<le> j \<longrightarrow> buf ! j = (dst[i := fst r]) ! j"
    by (auto simp del: length_list_update) (metis length_list_update)
  have a: "i2c_reads s' = i2c_reads s + (n - i)" using ih(3) r(2) lt by simp
  have b: "\<forall>j. i \<le> j \<and> j < n \<longrightarrow> buf ! j = dr_read env (i2c_reads s + (j - i))"
  proof (intro allI impI)
    fix j assume j: "i \<le> j \<and> j < n"
    show "buf ! j = dr_read env (i2c_reads s + (j - i))"
    proof (cases "j = i")
      case True
      then show ?thesis using ih(5) r(1) lt by simp
    next
      case False
      then have sj: "Suc i \<le> j" using j by simp
      then have e: "i2c_reads (snd r) + (j - Suc i) = i2c_reads s + (j - i)"
        using r(2) by arith
      from ih(4) sj j have "buf ! j = dr_read env (i2c_reads (snd r) + (j - Suc i))" by blast
      then show ?thesis by (simp only: e)
    qed
  qed
  have c: "\<forall>j. j < i \<or> n \<le> j \<longrightarrow> buf ! j = dst ! j"
    using ih(5) lt by auto
  show ?case using unf ih(1,2) a b c by simp
qed

lemma i2c_read_burst_ok:
  assumes "unat n \<le> length dst"
  shows "\<exists>buf s'. i2c_read_burst env reg n dst s = Inr ((n, buf), s') \<and> length buf = length dst
     \<and> i2c_reads s' = i2c_reads s + unat n
     \<and> (\<forall>j < unat n. buf ! j = dr_read env (i2c_reads s + j))"
proof -
  define s1 where "s1 = i2c_write_addr env (MPU_ADDR OR 1) (i2c_start env
                 (i2c_write_data env reg (i2c_write_addr env MPU_ADDR (i2c_start env s))))"
  have s1: "i2c_reads s1 = i2c_reads s" by (simp add: s1_def)
  from i2c_burst_loop_ok [of 0 "unat n" dst env s1] assms obtain buf s2 where
    l: "i2c_burst_loop env (unat n) 0 dst s1 = Inr (buf, s2)" "length buf = length dst"
       "i2c_reads s2 = i2c_reads s1 + unat n"
       "\<forall>j. j < unat n \<longrightarrow> buf ! j = dr_read env (i2c_reads s1 + j)"
    by auto
  have "i2c_read_burst env reg n dst s = Inr ((n, buf), i2c_stop s2)"
    using l(1) by (simp add: i2c_read_burst_def s1_def [symmetric])
  then show ?thesis using l(2,3,4) s1 by simp
qed


lemma mpu_read_ok:
  "\<exists>s'. mpu_read env bias vals s = Inr ((1, mpu_convert (burst_bytes env s) bias), s')
       \<and> i2c_reads s' = i2c_reads s + 14"
proof -
  from i2c_read_burst_ok [of 14 "replicate 14 0" env REG_ACCEL_XOUT_H s] obtain buf s' where
    b: "i2c_read_burst env REG_ACCEL_XOUT_H 14 (replicate 14 0) s = Inr ((14, buf), s')"
       "length buf = 14" "i2c_reads s' = i2c_reads s + 14"
       "\<forall>j < 14. buf ! j = dr_read env (i2c_reads s + j)"
    by auto
  have "buf = burst_bytes env s"
    using b(2,4) by (auto simp: burst_bytes_def list_eq_iff_nth_eq)
  then show ?thesis using b(1,3) by (simp add: mpu_read_def mpu_read_after_burst_def)
qed


lemma main_send_out:
  assumes "main_send e env txe now tFL tFR tBL tBR s = Inr s'"
  shows "glob s' = glob s \<and> pc s' = LoopTop now \<and> exti_enabled s' = exti_enabled s
     \<and> tx_out (ser s') = tx_out (ser s)
          @ frame_bytes e (build_payload now tFL tFR tBL tBR
              (mpu_convert (burst_bytes env (bus s)) (gyro_bias_z (glob s))) 1)"
proof -
  from mpu_read_ok [of env "gyro_bias_z (glob s)" imu_zero "bus s"] obtain b' where
    r: "mpu_read env (gyro_bias_z (glob s)) imu_zero (bus s)
          = Inr ((1, mpu_convert (burst_bytes env (bus s)) (gyro_bias_z (glob s))), b')"
    by blast
  from assms obtain u' where
    u: "send_payload e txe (build_payload now tFL tFR tBL tBR
              (mpu_convert (burst_bytes env (bus s)) (gyro_bias_z (glob s))) 1) (ser s) = Inr u'"
       "s' = s\<lparr>bus := b', ser := u', pc := LoopTop now\<rparr>"
    unfolding main_send_def r by (auto split: sum.splits)
  show ?thesis using send_payload_out [OF u(1)] u(2) by simp
qed

lemma build_payload_flags:
  "flags (build_payload now tFL tFR tBL tBR v ok) = (if ok \<noteq> 0 then 0 else 1)"
  by (simp add: build_payload_def)

text \<open>What the EXTI vectors and the pieces of main leave alone.\<close>

lemma isr_frame:
  assumes "isr w ia ib g = Inr g'"
  shows "(w' \<noteq> w \<longrightarrow> enc w' g' = enc w' g \<and> prev w' g' = prev w' g)
       \<and> gyro_bias_z g' = gyro_bias_z g \<and> systick_millis g' = systick_millis g
       \<and> prev w g' = rd w ia ib"
  using assms
  by (cases w; cases w')
     (auto simp: isrFL_def isrFR_def isrBL_def isrBR_def Let_def split: if_splits)

section \<open>The system: invariants\<close>

lemma isr_prev_lt4:
  assumes "isr w ia ib g = Inr g'" "\<forall>v. prev v g < 4"
  shows "\<forall>v. prev v g' < 4"
proof
  fix v
  show "prev v g' < 4"
  proof (cases "v = w")
    case True
    then show ?thesis using isr_frame [OF assms(1), of w] rd_lt4 [of w ia ib] by simp
  next
    case False
    then show ?thesis using isr_frame [OF assms(1), of v] assms(2) by simp
  qed
qed

lemma exti_prev_lt4:
  assumes "\<forall>v. prev v g < 4"
  shows "EXTI9_5_IRQHandler pr1 pr2 x1 x2 g = Inr g' \<Longrightarrow> \<forall>v. prev v g' < 4"
    and "EXTI15_10_IRQHandler pr1 pr2 pr3 x1 x2 x3 g = Inr g' \<Longrightarrow> \<forall>v. prev v g' < 4"
    and "EXTI3_IRQHandler pr1 x1 g = Inr g' \<Longrightarrow> \<forall>v. prev v g' < 4"
    and "EXTI4_IRQHandler pr1 x1 g = Inr g' \<Longrightarrow> \<forall>v. prev v g' < 4"
proof -
  note i = isr_prev_lt4 [where w = FL, simplified] isr_prev_lt4 [where w = FR, simplified]
           isr_prev_lt4 [where w = BL, simplified] isr_prev_lt4 [where w = BR, simplified]
  show "EXTI9_5_IRQHandler pr1 pr2 x1 x2 g = Inr g' \<Longrightarrow> \<forall>v. prev v g' < 4"
    unfolding EXTI9_5_IRQHandler_def using assms
    by (auto split: sum.splits if_splits dest!: i)
  show "EXTI15_10_IRQHandler pr1 pr2 pr3 x1 x2 x3 g = Inr g' \<Longrightarrow> \<forall>v. prev v g' < 4"
    unfolding EXTI15_10_IRQHandler_def using assms
    by (auto split: sum.splits if_splits dest!: i)
  show "EXTI3_IRQHandler pr1 x1 g = Inr g' \<Longrightarrow> \<forall>v. prev v g' < 4"
    unfolding EXTI3_IRQHandler_def using assms
    by (auto split: sum.splits if_splits dest!: i)
  show "EXTI4_IRQHandler pr1 x1 g = Inr g' \<Longrightarrow> \<forall>v. prev v g' < 4"
    unfolding EXTI4_IRQHandler_def using assms
    by (auto split: sum.splits if_splits dest!: i)
qed

lemma mpu_begin_returns_1: "fst (mpu_begin env s) = 1"
  by (simp add: mpu_begin_def)

lemma main_after_begin_fail:
  "main_after_begin 0 env junk pins s = Inr (s\<lparr>pc := Halted\<rparr>)"
  by (simp add: main_after_begin_def)

lemma main_after_begin_ok:
  assumes "r \<noteq> 0" "main_after_begin r env junk pins s = Inr s'"
  shows "pc s' = LoopTop 0 \<and> ser s' = ser s \<and> exti_enabled s'
       \<and> (\<forall>w. prev w (glob s') = rd w (fst (pins w)) (snd (pins w)))
       \<and> (\<forall>w. enc w (glob s') = enc w (glob s))
       \<and> systick_millis (glob s') = systick_millis (glob s)"
proof -
  from assms obtain b bus' where
    s': "s' = s\<lparr> glob := (glob s)\<lparr> gyro_bias_z := b,
                                      prevFL := rdFL (fst (pins FL)) (snd (pins FL)),
                                      prevFR := rdFR (fst (pins FR)) (snd (pins FR)),
                                      prevBL := rdBL (fst (pins BL)) (snd (pins BL)),
                                      prevBR := rdBR (fst (pins BR)) (snd (pins BR)) \<rparr>,
                   bus := bus', pc := LoopTop 0, exti_enabled := True \<rparr>"
    by (auto simp: main_after_begin_def split: sum.splits)
  have "\<And>w. prev w (glob s') = rd w (fst (pins w)) (snd (pins w))"
    subgoal for w by (cases w) (simp_all add: s') done
  moreover have "\<And>w. enc w (glob s') = enc w (glob s)"
    subgoal for w by (cases w) (simp_all add: s') done
  ultimately show ?thesis by (simp add: s')
qed

lemma main_boot_ok:
  assumes "main_boot env junk pins s = Inr s'"
  shows "pc s' = LoopTop 0 \<and> ser s' = ser s \<and> exti_enabled s'
       \<and> (\<forall>w. prev w (glob s') < 4) \<and> (\<forall>w. enc w (glob s') = enc w (glob s))"
proof -
  have ne: "fst (mpu_begin env (bus s)) \<noteq> 0" by (simp add: mpu_begin_returns_1)
  from main_after_begin_ok [OF ne assms [unfolded main_boot_def]]
  show ?thesis using rd_lt4 by simp
qed


lemma frames_ok_append:
  assumes "frames_ok e s" "tx_out (ser s') = tx_out (ser s) @ frame_bytes e p" "flags p = 0"
  shows "frames_ok e s'"
proof -
  from assms(1) obtain ps where ps: "tx_out (ser s) = concat (map (frame_bytes e) ps)"
    "list_all (\<lambda>p. flags p = 0) ps" by (auto simp: frames_ok_def)
  have "tx_out (ser s') = concat (map (frame_bytes e) (ps @ [p]))" using ps(1) assms(2) by simp
  moreover have "list_all (\<lambda>p. flags p = 0) (ps @ [p])" using ps(2) assms(3) by simp
  ultimately show ?thesis unfolding frames_ok_def by blast
qed

lemma frames_ok_same: "frames_ok e s \<Longrightarrow> ser s' = ser s \<Longrightarrow> frames_ok e s'"
  by (simp add: frames_ok_def)


lemma sys_inv_sys0: "sys_inv e sys0"
proof -
  have "\<And>w. prev w (glob sys0) < 4"
    subgoal for w by (cases w) (simp_all add: sys0_def globals0_def) done
  moreover have "frames_ok e sys0"
    unfolding frames_ok_def by (rule exI [of _ "[]"]) (simp add: sys0_def uart0_def)
  ultimately show ?thesis by (simp add: sys_inv_def sys0_def uart0_def)
qed

lemma sys_inv_step:
  assumes "sys_inv e s" "step e s s'"
  shows "sys_inv e s'"
  using assms(2)
proof cases
  case tick
  have "\<And>w. prev w (SysTick_Handler (glob s)) = prev w (glob s)"
    subgoal for w by (cases w) (simp_all add: SysTick_Handler_def) done
  then show ?thesis using assms(1) tick frames_ok_same [of e s s'] by (simp add: sys_inv_def)
next
  case (exti9_5 pr1 pr2 x1 x2 g')
  from exti_prev_lt4(1) [OF _ exti9_5(3)] assms(1) have "\<forall>v. prev v g' < 4" by (simp add: sys_inv_def)
  then show ?thesis using assms(1) exti9_5 frames_ok_same [of e s s'] by (auto simp: sys_inv_def)
next
  case (exti15_10 pr1 pr2 pr3 x1 x2 x3 g')
  from exti_prev_lt4(2) [OF _ exti15_10(3)] assms(1) have "\<forall>v. prev v g' < 4" by (simp add: sys_inv_def)
  then show ?thesis using assms(1) exti15_10 frames_ok_same [of e s s'] by (auto simp: sys_inv_def)
next
  case (exti3 pr1 x1 g')
  from exti_prev_lt4(3) [OF _ exti3(3)] assms(1) have "\<forall>v. prev v g' < 4" by (simp add: sys_inv_def)
  then show ?thesis using assms(1) exti3 frames_ok_same [of e s s'] by (auto simp: sys_inv_def)
next
  case (exti4 pr1 x1 g')
  from exti_prev_lt4(4) [OF _ exti4(3)] assms(1) have "\<forall>v. prev v g' < 4" by (simp add: sys_inv_def)
  then show ?thesis using assms(1) exti4 frames_ok_same [of e s s'] by (auto simp: sys_inv_def)
next
  case (boot env junk pins)
  from main_boot_ok [OF boot(2)] assms(1) frames_ok_same [of e s s']
  show ?thesis by (simp add: sys_inv_def)
next
  case (poll last_t)
  then show ?thesis using assms(1) frames_ok_same [of e s s']
    by (auto simp: sys_inv_def main_poll_def Let_def)
next
  case (snapshot now)
  then show ?thesis using assms(1) frames_ok_same [of e s s']
    by (auto simp: sys_inv_def main_snapshot_def)
next
  case (send now tFL tFR tBL tBR env txe)
  note o = main_send_out [OF send(2)]
  have "frames_ok e s'"
    using frames_ok_append [of e s s'] assms(1) o by (simp add: sys_inv_def build_payload_flags)
  then show ?thesis using assms(1) o by (simp add: sys_inv_def)
qed

lemma reachable_sys_inv: "reachable e s \<Longrightarrow> sys_inv e s"
  unfolding reachable_def
  by (induction rule: rtranclp_induct) (auto intro: sys_inv_sys0 sys_inv_step)

lemma calib_loop_returns:
  "i \<le> n \<Longrightarrow> \<exists>acc' s'. calib_loop env bias junk n i acc s = Inr (acc', s')"
proof (induction "n - i" arbitrary: i acc s)
  case 0
  then show ?case by (subst calib_loop.simps) simp
next
  case (Suc k)
  then have lt: "i < n" by arith
  from mpu_read_ok [of env bias junk s] obtain s1 where
    r: "mpu_read env bias junk s = Inr ((1, mpu_convert (burst_bytes env s) bias), s1)" by blast
  have k: "k = n - Suc i" using Suc.hyps(2) by simp
  from Suc.hyps(1) [OF k] lt
  have "\<exists>acc' s'. calib_loop env bias junk n (Suc i)
        (f32_add acc (f32_add (imu_gz (mpu_convert (burst_bytes env s) bias)) bias)) s1 = Inr (acc', s')"
    by simp
  then show ?case using lt r by (subst calib_loop.simps) simp
qed

lemma main_boot_returns: "\<exists>s'. main_boot env junk pins s = Inr s'"
proof -
  from calib_loop_returns [of 0 400 env _ junk 0] obtain acc' b' where
    "calib_loop env (gyro_bias_z (glob s)) junk 400 0 0 (snd (mpu_begin env (bus s))) = Inr (acc', b')"
    by blast
  then show ?thesis
    by (simp add: main_boot_def main_after_begin_def mpu_begin_returns_1 calibrate_def)
qed

lemma main_send_returns:
  assumes "\<forall>k. \<exists>j\<ge>k. txe j"
  shows "\<exists>s'. main_send e env txe now tFL tFR tBL tBR s = Inr s'"
proof -
  from mpu_read_ok [of env "gyro_bias_z (glob s)" imu_zero "bus s"] obtain b' where
    r: "mpu_read env (gyro_bias_z (glob s)) imu_zero (bus s)
          = Inr ((1, mpu_convert (burst_bytes env (bus s)) (gyro_bias_z (glob s))), b')"
    by blast
  from send_payload_returns [OF assms] obtain u' where
    "send_payload e txe (build_payload now tFL tFR tBL tBR
              (mpu_convert (burst_bytes env (bus s)) (gyro_bias_z (glob s))) 1) (ser s) = Inr u'"
    by blast
  then show ?thesis using r by (simp add: main_send_def)
qed

lemma halted_step:
  assumes "pc s = Halted" "\<not> exti_enabled s" "step e s s'"
  shows "pc s' = Halted \<and> ser s' = ser s \<and> \<not> exti_enabled s'"
  using assms(3) assms(1,2) by cases auto

lemma halted_steps:
  assumes "rtranclp (step e) s s'" "pc s = Halted" "\<not> exti_enabled s"
  shows "pc s' = Halted \<and> ser s' = ser s \<and> \<not> exti_enabled s'"
  using assms by (induction rule: rtranclp_induct) (auto dest: halted_step)

lemma step_sends_only_at_Send:
  assumes "step e s s'" "ser s' \<noteq> ser s"
  shows "\<exists>now tFL tFR tBL tBR. pc s = Send now tFL tFR tBL tBR"
  using assms
proof cases
  case (boot env junk pins)
  then show ?thesis using main_boot_ok [OF boot(2)] assms(2) by simp
qed (auto simp: main_poll_def main_snapshot_def Let_def)

text \<open>The system does get to send: a run from the initial state with one frame out.\<close>

lemma ticks_reach:
  "reachable e s \<Longrightarrow> reachable e (s\<lparr>glob := (SysTick_Handler ^^ n) (glob s)\<rparr>)"
proof (induction n)
  case 0
  then show ?case by simp
next
  case (Suc n)
  from step.tick [of e "s\<lparr>glob := (SysTick_Handler ^^ n) (glob s)\<rparr>"]
  have "step e (s\<lparr>glob := (SysTick_Handler ^^ n) (glob s)\<rparr>)
               (s\<lparr>glob := (SysTick_Handler ^^ Suc n) (glob s)\<rparr>)" by simp
  moreover have "rtranclp (step e) sys0 (s\<lparr>glob := (SysTick_Handler ^^ n) (glob s)\<rparr>)"
    using Suc unfolding reachable_def by simp
  ultimately show ?case unfolding reachable_def by (rule rtranclp.rtrancl_into_rtrancl [rotated])
qed

lemma systick_funpow: "systick_millis ((SysTick_Handler ^^ n) g) = systick_millis g + of_nat n"
  by (induction n) (simp_all add: SysTick_Handler_def)

lemma reachable_step: "reachable e s \<Longrightarrow> step e s s' \<Longrightarrow> reachable e s'"
  unfolding reachable_def by (rule rtranclp.rtrancl_into_rtrancl)

lemma one_frame_reachable:
  "\<exists>s. reachable e s \<and> length (tx_out (ser s)) = 49 \<and> pc s = LoopTop 10"
proof -
  have r0: "reachable e sys0" unfolding reachable_def by simp
  from main_boot_returns obtain s1 where b: "main_boot env_zero imu_zero pins_zero sys0 = Inr s1"
    by blast
  have p0: "pc sys0 = Boot" by (simp add: sys0_def)
  have r1: "reachable e s1" using reachable_step [OF r0 step.boot [OF p0 b]] .
  note o1 = main_boot_ok [OF b]
  have m1: "systick_millis (glob s1) = 0"
    using main_after_begin_ok [OF _ b [unfolded main_boot_def]]
    by (simp add: mpu_begin_returns_1 sys0_def globals0_def)
  define s2 where "s2 = s1\<lparr>glob := (SysTick_Handler ^^ 10) (glob s1)\<rparr>"
  have r2: "reachable e s2" unfolding s2_def by (rule ticks_reach [OF r1])
  have p2: "pc s2 = LoopTop 0" "ser s2 = ser s1" "millis (glob s2) = 10"
    using o1 m1 by (simp_all add: s2_def millis_def systick_funpow)
  have r3: "reachable e (main_poll 0 s2)" using reachable_step [OF r2 step.poll [OF p2(1)]] .
  have p3: "pc (main_poll 0 s2) = Snapshot 10" "ser (main_poll 0 s2) = ser s1"
    using p2 by (simp_all add: main_poll_def Let_def)
  define s3 where "s3 = main_poll 0 s2"
  have r4: "reachable e (main_snapshot 10 s3)"
    using reachable_step [OF r3 step.snapshot [of "main_poll 0 s2" 10 e]] p3 by (simp add: s3_def)
  define s4 where "s4 = main_snapshot 10 s3"
  have p4: "pc s4 = Send 10 (encFL (glob s3)) (encFR (glob s3)) (encBL (glob s3)) (encBR (glob s3))"
    "ser s4 = ser s1"
    using p3 by (simp_all add: s4_def s3_def main_snapshot_def)
  from main_send_returns [OF txe_always_ready] obtain s5 where
    s5: "main_send e env_zero txe_always 10 (encFL (glob s3)) (encFR (glob s3)) (encBL (glob s3))
           (encBR (glob s3)) s4 = Inr s5" by blast
  have r5: "reachable e s5" using reachable_step [OF r4 [folded s4_def] step.send [OF p4(1) s5]] .
  note o5 = main_send_out [OF s5]
  have "tx_out (ser s1) = []" using o1 by (simp add: sys0_def uart0_def)
  then have "length (tx_out (ser s5)) = 49" using o5 p4(2) by (simp add: length_frame_bytes)
  then show ?thesis using r5 o5 by blast
qed

section \<open>The system: the claims\<close>

text \<open>
  Claim C5. Let the burst read have returned \<open>ret\<close> bytes, at most the 14 asked for.
  Then \<^verbatim>\<open>mpu_read\<close> returns 0 (sample not valid) exactly when \<open>ret\<close> is below 14; in that
  case it leaves the six values untouched and the payload built from its result has
  \<open>flags = 0x0001\<close>; when all 14 bytes came it returns 1 and the payload has
  \<open>flags = 0x0000\<close>. The last part says that the frame of a loop cycle is built from
  exactly this result of the cycle's burst read.
\<close>

theorem read_validity_and_flag:
  assumes "ret \<le> 14"
  shows "(fst (mpu_read_after_burst ret buf bias vals) = 0 \<longleftrightarrow> ret < 14)
       \<and> (ret < 14 \<longrightarrow> mpu_read_after_burst ret buf bias vals = (0, vals)
             \<and> flags (build_payload now tFL tFR tBL tBR
                  (snd (mpu_read_after_burst ret buf bias vals))
                  (fst (mpu_read_after_burst ret buf bias vals))) = 0x0001)
       \<and> (ret = 14 \<longrightarrow> fst (mpu_read_after_burst ret buf bias vals) = 1
             \<and> flags (build_payload now tFL tFR tBL tBR
                  (snd (mpu_read_after_burst ret buf bias vals))
                  (fst (mpu_read_after_burst ret buf bias vals))) = 0x0000)
       \<and> main_send e env txe now tFL tFR tBL tBR s =
           (case i2c_read_burst env REG_ACCEL_XOUT_H 14 (replicate 14 0) (bus s) of
              Inl f \<Rightarrow> Inl f
            | Inr rb \<Rightarrow>
               (case send_payload e txe
                       (build_payload now tFL tFR tBL tBR
                          (snd (mpu_read_after_burst (fst (fst rb)) (snd (fst rb))
                                  (gyro_bias_z (glob s)) imu_zero))
                          (fst (mpu_read_after_burst (fst (fst rb)) (snd (fst rb))
                                  (gyro_bias_z (glob s)) imu_zero)))
                       (ser s) of
                  Inl f \<Rightarrow> Inl f
                | Inr ser' \<Rightarrow> Inr (s\<lparr>bus := snd rb, ser := ser', pc := LoopTop now\<rparr>)))"
proof -
  have lt: "ret < 14 \<longleftrightarrow> ret \<noteq> 14" using assms by auto
  have a: "fst (mpu_read_after_burst ret buf bias vals) = 0 \<longleftrightarrow> ret < 14"
    by (simp add: mpu_read_after_burst_def lt)
  have b: "ret < 14 \<longrightarrow> mpu_read_after_burst ret buf bias vals = (0, vals)
             \<and> flags (build_payload now tFL tFR tBL tBR
                  (snd (mpu_read_after_burst ret buf bias vals))
                  (fst (mpu_read_after_burst ret buf bias vals))) = 0x0001"
    by (simp add: mpu_read_after_burst_def lt build_payload_flags)
  have c: "ret = 14 \<longrightarrow> fst (mpu_read_after_burst ret buf bias vals) = 1
             \<and> flags (build_payload now tFL tFR tBL tBR
                  (snd (mpu_read_after_burst ret buf bias vals))
                  (fst (mpu_read_after_burst ret buf bias vals))) = 0x0000"
    by (simp add: mpu_read_after_burst_def build_payload_flags)
  have d: "main_send e env txe now tFL tFR tBL tBR s =
           (case i2c_read_burst env REG_ACCEL_XOUT_H 14 (replicate 14 0) (bus s) of
              Inl f \<Rightarrow> Inl f
            | Inr rb \<Rightarrow>
               (case send_payload e txe
                       (build_payload now tFL tFR tBL tBR
                          (snd (mpu_read_after_burst (fst (fst rb)) (snd (fst rb))
                                  (gyro_bias_z (glob s)) imu_zero))
                          (fst (mpu_read_after_burst (fst (fst rb)) (snd (fst rb))
                                  (gyro_bias_z (glob s)) imu_zero)))
                       (ser s) of
                  Inl f \<Rightarrow> Inl f
                | Inr ser' \<Rightarrow> Inr (s\<lparr>bus := snd rb, ser := ser', pc := LoopTop now\<rparr>)))"
    by (simp add: main_send_def mpu_read_def split: sum.splits prod.splits)
  show ?thesis using a b c d by blast
qed

theorem read_validity_and_flag_witness:
  "(13::u8) \<le> 14 \<and> (13::u8) < 14
   \<and> fst (mpu_read_after_burst 13 [] 0 imu_zero) = 0
   \<and> flags (build_payload 0 0 0 0 0 (snd (mpu_read_after_burst 13 [] 0 imu_zero))
              (fst (mpu_read_after_burst 13 [] 0 imu_zero))) = 0x0001
   \<and> (14::u8) \<le> 14
   \<and> fst (mpu_read_after_burst 14 (replicate 14 0) 0 imu_zero) = 1
   \<and> flags (build_payload 0 0 0 0 0 (snd (mpu_read_after_burst 14 (replicate 14 0) 0 imu_zero))
              (fst (mpu_read_after_burst 14 (replicate 14 0) 0 imu_zero))) = 0x0000"
proof -
  have a: "(13::u8) \<le> 14" "(13::u8) < 14" "(14::u8) \<le> 14" by simp_all
  from read_validity_and_flag [OF a(1), of "[]" 0 imu_zero 0 0 0 0 0]
       read_validity_and_flag [OF a(3), of "replicate 14 0" 0 imu_zero 0 0 0 0 0] a
  show ?thesis by blast
qed

text \<open>
  Claim C9. A call of the edge handler of wheel \<open>w\<close> leaves the counter and previous
  phase of every other wheel, the gyro bias and the millisecond counter as they were.
  The pieces of the main loop (the time test, the snapshot, the read-build-send) leave
  all globals as they were; the snapshot copies the four counters. The start-up of
  \<^verbatim>\<open>main\<close> does not write the counters either.
\<close>

theorem handlers_touch_own_wheel:
  "(isr w ia ib g = Inr g' \<and> w' \<noteq> w \<longrightarrow> enc w' g' = enc w' g \<and> prev w' g' = prev w' g)
   \<and> (isr w ia ib g = Inr g' \<longrightarrow>
         gyro_bias_z g' = gyro_bias_z g \<and> systick_millis g' = systick_millis g)
   \<and> glob (main_poll last_t s) = glob s
   \<and> glob (main_snapshot now s) = glob s
   \<and> pc (main_snapshot now s)
       = Send now (enc FL (glob s)) (enc FR (glob s)) (enc BL (glob s)) (enc BR (glob s))
   \<and> (main_send e env txe now tFL tFR tBL tBR s = Inr s' \<longrightarrow> glob s' = glob s)
   \<and> (main_boot env junk pins s = Inr s'' \<longrightarrow> (\<forall>v. enc v (glob s'') = enc v (glob s)))"
proof -
  have a: "isr w ia ib g = Inr g' \<and> w' \<noteq> w \<longrightarrow> enc w' g' = enc w' g \<and> prev w' g' = prev w' g"
    using isr_frame [of w ia ib g g' w'] by blast
  have b: "isr w ia ib g = Inr g' \<longrightarrow>
         gyro_bias_z g' = gyro_bias_z g \<and> systick_millis g' = systick_millis g"
    using isr_frame [of w ia ib g g' w'] by blast
  have c: "glob (main_poll last_t s) = glob s" by (simp add: main_poll_def Let_def)
  have d: "glob (main_snapshot now s) = glob s"
    "pc (main_snapshot now s)
       = Send now (enc FL (glob s)) (enc FR (glob s)) (enc BL (glob s)) (enc BR (glob s))"
    by (simp_all add: main_snapshot_def)
  have f: "main_send e env txe now tFL tFR tBL tBR s = Inr s' \<longrightarrow> glob s' = glob s"
    using main_send_out by blast
  have h: "main_boot env junk pins s = Inr s'' \<longrightarrow> (\<forall>v. enc v (glob s'') = enc v (glob s))"
    using main_boot_ok by blast
  show ?thesis using a b c d f h by blast
qed

theorem handlers_touch_own_wheel_witness:
  "(\<exists>g'. isr FL 0x100 0x100 globals0 = Inr g' \<and> FR \<noteq> FL
        \<and> enc FR g' = enc FR globals0 \<and> prev FR g' = prev FR globals0
        \<and> gyro_bias_z g' = gyro_bias_z globals0 \<and> systick_millis g' = systick_millis globals0)
   \<and> (\<exists>s'. main_send LittleEndian env_zero txe_always 0 0 0 0 0 sys0 = Inr s'
        \<and> glob s' = glob sys0)
   \<and> (\<exists>s''. main_boot env_zero imu_zero pins_zero sys0 = Inr s''
        \<and> enc FL (glob s'') = enc FL (glob sys0))"
proof -
  have p: "prev FL globals0 < 4" by (simp add: globals0_def)
  from isr_step [OF p, of "0x100" "0x100"] obtain g' where
    g: "isr FL 0x100 0x100 globals0 = Inr g'" by blast
  from main_send_returns [OF txe_always_ready] obtain s' where
    s: "main_send LittleEndian env_zero txe_always 0 0 0 0 0 sys0 = Inr s'" by blast
  from main_boot_returns obtain s'' where
    b: "main_boot env_zero imu_zero pins_zero sys0 = Inr s''" by blast
  have ne: "FR \<noteq> FL" by simp
  note t = handlers_touch_own_wheel [where w = FL and ia = "0x100" and ib = "0x100"
      and g = globals0 and g' = g' and w' = FR and s = sys0 and e = LittleEndian
      and env = env_zero and txe = txe_always and now = 0 and tFL = 0 and tFR = 0
      and tBL = 0 and tBR = 0 and s' = s' and junk = imu_zero and pins = pins_zero
      and s'' = s'']
  from t g s b ne show ?thesis by blast
qed

text \<open>
  Claim C10. \<^verbatim>\<open>i2c_read_burst\<close> returns its argument \<open>n\<close> whatever the status polls
  and the data register give (the destination must hold \<open>n\<close> bytes); so \<^verbatim>\<open>mpu_read\<close>
  always returns 1, every frame a loop cycle sends has \<open>flags = 0\<close>, and in every
  reachable state all that was sent is a sequence of frames with \<open>flags = 0\<close>.
\<close>

theorem burst_always_complete:
  "(unat n \<le> length dst \<longrightarrow> (\<exists>buf s'. i2c_read_burst env reg n dst s = Inr ((n, buf), s')))
   \<and> (\<exists>v s'. mpu_read env bias vals s = Inr ((1, v), s'))
   \<and> (main_send e env txe now tFL tFR tBL tBR st = Inr st' \<longrightarrow>
         (\<exists>p. sent (ser st) (ser st') = frame_bytes e p \<and> flags p = 0))
   \<and> (reachable e st \<longrightarrow> frames_ok e st)"
proof -
  have a: "unat n \<le> length dst \<longrightarrow> (\<exists>buf s'. i2c_read_burst env reg n dst s = Inr ((n, buf), s'))"
    using i2c_read_burst_ok [of n dst env reg s] by blast
  have b: "\<exists>v s'. mpu_read env bias vals s = Inr ((1, v), s')"
    using mpu_read_ok [of env bias vals s] by blast
  have c: "main_send e env txe now tFL tFR tBL tBR st = Inr st' \<longrightarrow>
         (\<exists>p. sent (ser st) (ser st') = frame_bytes e p \<and> flags p = 0)"
  proof
    assume h: "main_send e env txe now tFL tFR tBL tBR st = Inr st'"
    from main_send_out [OF h] have
      "sent (ser st) (ser st') = frame_bytes e (build_payload now tFL tFR tBL tBR
              (mpu_convert (burst_bytes env (bus st)) (gyro_bias_z (glob st))) 1)"
      by (simp add: sent_def)
    moreover have "flags (build_payload now tFL tFR tBL tBR
              (mpu_convert (burst_bytes env (bus st)) (gyro_bias_z (glob st))) 1) = 0"
      by (simp add: build_payload_flags)
    ultimately show "\<exists>p. sent (ser st) (ser st') = frame_bytes e p \<and> flags p = 0" by blast
  qed
  have d: "reachable e st \<longrightarrow> frames_ok e st"
    using reachable_sys_inv [of e st] by (simp add: sys_inv_def)
  show ?thesis using a b c d by blast
qed

theorem burst_always_complete_witness:
  "unat (14::u8) \<le> length (replicate 14 (0::u8))
   \<and> (\<exists>buf s'. i2c_read_burst env_zero REG_ACCEL_XOUT_H 14 (replicate 14 0) i2c0
                  = Inr ((14, buf), s'))
   \<and> (\<exists>v s'. mpu_read env_zero 0 imu_zero i2c0 = Inr ((1, v), s'))
   \<and> (\<exists>st. reachable LittleEndian st \<and> length (tx_out (ser st)) = 49
            \<and> frames_ok LittleEndian st)"
proof -
  have l: "unat (14::u8) \<le> length (replicate 14 (0::u8))" by simp
  from one_frame_reachable [of LittleEndian] obtain st where
    st: "reachable LittleEndian st" "length (tx_out (ser st)) = 49" by blast
  note t = burst_always_complete [where n = 14 and dst = "replicate 14 0" and env = env_zero
      and reg = REG_ACCEL_XOUT_H and s = i2c0 and bias = 0 and vals = imu_zero
      and e = LittleEndian and st = st]
  from t l st show ?thesis by blast
qed

text \<open>
  Claim C8. In a reachable state in which anything has been sent, \<^verbatim>\<open>main\<close> is past
  the start-up and not halted. If \<^verbatim>\<open>mpu_begin\<close> returns 0, \<^verbatim>\<open>main\<close> goes to the halt
  and changes nothing else; if it returns non-zero and the start-up returns, \<^verbatim>\<open>main\<close>
  is at the top of the loop with nothing sent meanwhile. From a halted state (EXTI
  lines masked, as they are before the start-up ends) every run stays halted and
  sends nothing. Only the send piece of the loop ever changes what was sent.
\<close>

theorem fail_stop:
  "(reachable e s \<and> tx_out (ser s) \<noteq> [] \<longrightarrow> pc s \<noteq> Boot \<and> pc s \<noteq> Halted)
   \<and> main_after_begin 0 env junk pins s = Inr (s\<lparr>pc := Halted\<rparr>)
   \<and> (r \<noteq> 0 \<and> main_after_begin r env junk pins s = Inr sa \<longrightarrow>
         pc sa = LoopTop 0 \<and> ser sa = ser s)
   \<and> (pc s = Halted \<and> \<not> exti_enabled s \<and> rtranclp (step e) s sb \<longrightarrow>
         pc sb = Halted \<and> ser sb = ser s)
   \<and> (step e s sc \<and> ser sc \<noteq> ser s \<longrightarrow> (\<exists>now tFL tFR tBL tBR. pc s = Send now tFL tFR tBL tBR))"
proof -
  have a: "reachable e s \<and> tx_out (ser s) \<noteq> [] \<longrightarrow> pc s \<noteq> Boot \<and> pc s \<noteq> Halted"
    using reachable_sys_inv [of e s] by (auto simp: sys_inv_def)
  have b: "main_after_begin 0 env junk pins s = Inr (s\<lparr>pc := Halted\<rparr>)"
    by (rule main_after_begin_fail)
  have c: "r \<noteq> 0 \<and> main_after_begin r env junk pins s = Inr sa \<longrightarrow>
         pc sa = LoopTop 0 \<and> ser sa = ser s"
    using main_after_begin_ok [of r env junk pins s sa] by blast
  have d: "pc s = Halted \<and> \<not> exti_enabled s \<and> rtranclp (step e) s sb \<longrightarrow>
         pc sb = Halted \<and> ser sb = ser s"
    using halted_steps [of e s sb] by blast
  have f: "step e s sc \<and> ser sc \<noteq> ser s \<longrightarrow> (\<exists>now tFL tFR tBL tBR. pc s = Send now tFL tFR tBL tBR)"
    using step_sends_only_at_Send [of e s sc] by blast
  show ?thesis using a b c d f by blast
qed


theorem fail_stop_witness:
  "(\<exists>s. reachable LittleEndian s \<and> tx_out (ser s) \<noteq> [] \<and> pc s \<noteq> Boot \<and> pc s \<noteq> Halted)
   \<and> main_after_begin 0 env_zero imu_zero pins_zero sys0 = Inr (sys0\<lparr>pc := Halted\<rparr>)
   \<and> pc (sys0\<lparr>pc := Halted\<rparr>) = Halted \<and> \<not> exti_enabled (sys0\<lparr>pc := Halted\<rparr>)
   \<and> rtranclp (step LittleEndian) (sys0\<lparr>pc := Halted\<rparr>)
        (sys0\<lparr>pc := Halted, glob := SysTick_Handler globals0\<rparr>)
   \<and> pc (sys0\<lparr>pc := Halted, glob := SysTick_Handler globals0\<rparr>) = Halted
   \<and> ser (sys0\<lparr>pc := Halted, glob := SysTick_Handler globals0\<rparr>) = ser (sys0\<lparr>pc := Halted\<rparr>)"
proof -
  from one_frame_reachable [of LittleEndian] obtain st where
    st: "reachable LittleEndian st" "length (tx_out (ser st)) = 49" by blast
  have ne: "tx_out (ser st) \<noteq> []" using st(2) by auto
  have h: "pc (sys0\<lparr>pc := Halted\<rparr>) = Halted" "\<not> exti_enabled (sys0\<lparr>pc := Halted\<rparr>)"
    by (simp_all add: sys0_def)
  have "step LittleEndian (sys0\<lparr>pc := Halted\<rparr>)
          ((sys0\<lparr>pc := Halted\<rparr>)\<lparr>glob := SysTick_Handler (glob (sys0\<lparr>pc := Halted\<rparr>))\<rparr>)"
    by (rule step.tick)
  then have "step LittleEndian (sys0\<lparr>pc := Halted\<rparr>)
          (sys0\<lparr>pc := Halted, glob := SysTick_Handler globals0\<rparr>)"
    by (simp add: sys0_def)
  then have r: "rtranclp (step LittleEndian) (sys0\<lparr>pc := Halted\<rparr>)
        (sys0\<lparr>pc := Halted, glob := SysTick_Handler globals0\<rparr>)" by (rule r_into_rtranclp)
  note t1 = fail_stop [where e = LittleEndian and s = st]
  note t2 = fail_stop [where e = LittleEndian and s = "sys0\<lparr>pc := Halted\<rparr>"
      and sb = "sys0\<lparr>pc := Halted, glob := SysTick_Handler globals0\<rparr>"]
  note t3 = fail_stop [where s = sys0 and env = env_zero and junk = imu_zero and pins = pins_zero]
  have a: "\<exists>s. reachable LittleEndian s \<and> tx_out (ser s) \<noteq> [] \<and> pc s \<noteq> Boot \<and> pc s \<noteq> Halted"
    using t1 st(1) ne by blast
  have b: "main_after_begin 0 env_zero imu_zero pins_zero sys0 = Inr (sys0\<lparr>pc := Halted\<rparr>)"
    using t3 by blast
  have c: "pc (sys0\<lparr>pc := Halted, glob := SysTick_Handler globals0\<rparr>) = Halted
   \<and> ser (sys0\<lparr>pc := Halted, glob := SysTick_Handler globals0\<rparr>) = ser (sys0\<lparr>pc := Halted\<rparr>)"
    using t2 h r by blast
  show ?thesis using a b c h r by blast
qed

section \<open>Single-precision arithmetic: computing on numerals\<close>

lemma f32_round_mag_staged:
  "f32_round_mag p q =
     (if p = 0 then 0 else rm_E p q (max (rm_e p q (bit_length p - bit_length q)) (- 126)))"
  by (simp only: f32_round_mag_def rm_E_def rm_quot_def rm_fin_def rm_pack_def rm_e_def Let_def)

lemma bit_length_numeral:
  "bit_length 0 = 0"
  "bit_length 1 = 1"
  "bit_length (numeral Num.One) = 1"
  "bit_length (numeral (Num.Bit0 n)) = 1 + bit_length (numeral n)"
  "bit_length (numeral (Num.Bit1 n)) = 1 + bit_length (numeral n)"
proof -
  show "bit_length 0 = 0" by (subst bit_length.simps) simp
  show b1: "bit_length 1 = 1" by (subst bit_length.simps, subst bit_length.simps) simp
  show "bit_length (numeral Num.One) = 1" using b1 by simp
  have "bit_length (numeral (Num.Bit0 n)) = 1 + bit_length (numeral (Num.Bit0 n) div 2)"
    by (subst bit_length.simps) simp
  then show "bit_length (numeral (Num.Bit0 n)) = 1 + bit_length (numeral n)" by simp
  have "bit_length (numeral (Num.Bit1 n)) = 1 + bit_length (numeral (Num.Bit1 n) div 2)"
    by (subst bit_length.simps) simp
  then show "bit_length (numeral (Num.Bit1 n)) = 1 + bit_length (numeral n)" by simp
qed

lemmas rm_eval = f32_round_mag_staged rm_E_def rm_quot_def rm_fin_def rm_pack_def rm_e_def
  pow2_def bit_length_numeral f32_inf_bits_def

lemma f32_add_staged:
  assumes "uint a div 8388608 mod 256 \<noteq> 255" "uint b div 8388608 mod 256 \<noteq> 255"
  shows "f32_add a b = add_bits (uint a) (uint b)"
  using assms
  by (simp only: add_bits_def add_fields_def add_exact_def add_round_def f32_add_def Let_def
      f32_is_nan_def f32_is_inf_def f32_mant_def f32_ulp_def f32_expo_def f32_frac_def f32_sign_def
      simp_thms if_False)

lemmas add_eval = f32_add_staged add_bits_def add_fields_def add_exact_def add_round_def
  f32_round_scaled_def f32_make_def rm_eval

lemmas f32_ev = f32_mul_def f32_div_def f32_sub_def f32_neg_def f32_add_def f32_of_int_def f32_lit_def
  f32_is_nan_def f32_is_inf_def f32_expo_def f32_frac_def f32_sign_def f32_mant_def f32_ulp_def
  f32_round_scaled_def f32_make_def f32_nan_def Let_def rm_eval

lemma GYRO_S_bits: "GYRO_S = 0x3A8B7D77"
  by (simp add: GYRO_S_def f32_ev)

lemma ACCEL_S_bits: "ACCEL_S = 0x3A9CE80A"
  by (simp add: ACCEL_S_def f32_ev)

lemma f32_sum_rep_funpow: "f32_sum_rep (int n) x a = ((\<lambda>a. f32_add a x) ^^ n) a"
proof (induction n arbitrary: a)
  case 0
  then show ?case by (subst f32_sum_rep.simps) simp
next
  case (Suc n)
  have "f32_sum_rep (int (Suc n)) x a = f32_sum_rep (int n) x (f32_add a x)"
    by (subst f32_sum_rep.simps) simp
  then show ?case using Suc [of "f32_add a x"] by (simp del: funpow.simps add: funpow_Suc_right)
qed

lemma f32_sum_rep_add:
  assumes "0 \<le> m" "0 \<le> n"
  shows "f32_sum_rep (m + n) x a = f32_sum_rep n x (f32_sum_rep m x a)"
proof -
  from assms obtain i j where mn: "m = int i" "n = int j" by (metis nonneg_int_cases)
  have "f32_sum_rep (m + n) x a = f32_sum_rep (int (j + i)) x a"
    using mn by (simp add: add.commute)
  also have "\<dots> = ((\<lambda>a. f32_add a x) ^^ (j + i)) a" by (rule f32_sum_rep_funpow)
  also have "\<dots> = ((\<lambda>a. f32_add a x) ^^ j) (((\<lambda>a. f32_add a x) ^^ i) a)"
    by (simp add: funpow_add)
  also have "\<dots> = f32_sum_rep n x (f32_sum_rep m x a)"
    by (simp add: mn f32_sum_rep_funpow)
  finally show ?thesis .
qed

lemma gyro_sum_1: "f32_sum_rep 50 982220151 0 = 1029305357"
  by (simp add: add_eval f32_sum_rep.simps)

lemma gyro_sum_2: "f32_sum_rep 50 982220151 1029305357 = 1037693970"
  by (simp add: add_eval f32_sum_rep.simps)

lemma gyro_sum_3: "f32_sum_rep 50 982220151 1037693970 = 1042511631"
  by (simp add: add_eval f32_sum_rep.simps)

lemma gyro_sum_4: "f32_sum_rep 50 982220151 1042511631 = 1046082581"
  by (simp add: add_eval f32_sum_rep.simps)

lemma gyro_sum_5: "f32_sum_rep 50 982220151 1046082581 = 1049114758"
  by (simp add: add_eval f32_sum_rep.simps)

lemma gyro_sum_6: "f32_sum_rep 50 982220151 1049114758 = 1050900208"
  by (simp add: add_eval f32_sum_rep.simps)

lemma gyro_sum_7: "f32_sum_rep 50 982220151 1050900208 = 1052685658"
  by (simp add: add_eval f32_sum_rep.simps)

lemma gyro_sum_8: "f32_sum_rep 50 982220151 1052685658 = 1054471108"
  by (simp add: add_eval f32_sum_rep.simps)

lemma gyro_sum_400: "f32_sum_rep 400 982220151 0 = 1054471108"
proof -
  have a: "f32_sum_rep 100 982220151 0 = 1037693970"
    using f32_sum_rep_add [of 50 50 982220151 0] gyro_sum_1 gyro_sum_2 by simp
  have b: "f32_sum_rep 150 982220151 0 = 1042511631"
    using f32_sum_rep_add [of 100 50 982220151 0] a gyro_sum_3 by simp
  have c: "f32_sum_rep 200 982220151 0 = 1046082581"
    using f32_sum_rep_add [of 150 50 982220151 0] b gyro_sum_4 by simp
  have d: "f32_sum_rep 250 982220151 0 = 1049114758"
    using f32_sum_rep_add [of 200 50 982220151 0] c gyro_sum_5 by simp
  have e: "f32_sum_rep 300 982220151 0 = 1050900208"
    using f32_sum_rep_add [of 250 50 982220151 0] d gyro_sum_6 by simp
  have f: "f32_sum_rep 350 982220151 0 = 1052685658"
    using f32_sum_rep_add [of 300 50 982220151 0] e gyro_sum_7 by simp
  show ?thesis
    using f32_sum_rep_add [of 350 50 982220151 0] f gyro_sum_8 by simp
qed

lemma gyro_one_values:
  "f32_mul (f32_of_int 1) 0x3A8B7D77 = 0x3A8B7D77"
  "f32_sub 0x3A8B7D77 0 = 0x3A8B7D77"
  "f32_add 0x3A8B7D77 0 = 0x3A8B7D77"
  "f32_div 1054471108 (f32_of_int 400) = 0x3A8B7D4A"
  "f32_sub 0x3A8B7D77 0x3A8B7D4A = 0x31B40000"
  by (simp_all add: f32_ev)

lemma zero_values:
  "f32_mul (f32_of_int 0) GYRO_S = 0" "f32_sub 0 0 = 0" "f32_add 0 0 = 0"
  "f32_div 0 (f32_of_int 400) = 0"
  by (simp_all add: GYRO_S_bits f32_ev)

lemma accel_example_values:
  "f32_mul (f32_of_int 4096) 0x3A9CE80A = 0x409CE80A"
  "f32_valof 0x409CE80A = 5141509 / 1048576"
  "f32_valof 0x3A9CE80A = 5141509 / 4294967296"
  "f32_valof 0x3A8B7D77 = 9141623 / 8589934592"
  by (simp_all add: f32_ev f32_valof_def)

end
